theory Spec2Isabelle
  imports Main "HOL-Library.Word"
begin

unbundle bit_operations_syntax

section \<open>Machine types and constants of e1000.c\<close>

text \<open>
  The driver is 32-bit x86 kernel code: \<^verbatim>\<open>uint\<close> is 32 bits, \<^verbatim>\<open>ushort\<close> 16,
  \<^verbatim>\<open>uchar\<close> 8, and a pointer is a 32-bit address. Arithmetic on them wraps.
\<close>

type_synonym uint = "32 word"
type_synonym ushort = "16 word"
type_synonym uchar = "8 word"

definition PCI_CONFIG_ADDR :: ushort where "PCI_CONFIG_ADDR = 0xCF8"
definition PCI_CONFIG_DATA :: ushort where "PCI_CONFIG_DATA = 0xCFC"

definition VENDOR_ID :: ushort where "VENDOR_ID = 0x8086"
definition DEVICE_ID :: ushort where "DEVICE_ID = 0x100E"

definition EERD :: ushort where "EERD = 0x0014"
definition ICR :: uint where "ICR = 0x000C0"
definition IMS :: uint where "IMS = 0x000D0"
definition RCTL :: uint where "RCTL = 0x00100"
definition TIPG :: uint where "TIPG = 0x00410"
definition RDBAL :: uint where "RDBAL = 0x02800"
definition RDBAH :: uint where "RDBAH = 0x02804"
definition RDLEN :: uint where "RDLEN = 0x02808"
definition RDH :: uint where "RDH = 0x02810"
definition RDT :: uint where "RDT = 0x02818"
definition TDBAL :: uint where "TDBAL = 0x03800"
definition TDBAH :: uint where "TDBAH = 0x03804"
definition TDLEN :: uint where "TDLEN = 0x03808"
definition TDH :: uint where "TDH = 0x03810"
definition TDT :: uint where "TDT = 0x03818"
definition TCTL :: uint where "TCTL = 0x00400"
definition RAL :: uint where "RAL = 0x05400"
definition RAH :: uint where "RAH = 0x05404"

definition ETH_TYPE_IPV4 :: ushort where "ETH_TYPE_IPV4 = 0x0800"
definition ETH_TYPE_IPV6 :: ushort where "ETH_TYPE_IPV6 = 0x86DD"
definition ETH_TYPE_ARP :: ushort where "ETH_TYPE_ARP = 0x0806"

text \<open>
  \<^verbatim>\<open>struct rx_desc { uint addr[2]; uint fields[2]; }\<close>: four 32-bit words, so
  \<^verbatim>\<open>sizeof(struct rx_desc)\<close> is 16.
\<close>

definition sizeof_rx_desc :: uint where "sizeof_rx_desc = 16"

text \<open>
  The constants that the driver takes from xv6 headers which are not among the sources
  (\<^verbatim>\<open>PGSIZE\<close> from mmu.h, \<^verbatim>\<open>KERNBASE\<close> from memlayout.h, \<^verbatim>\<open>IRQ_PCI0\<close> from traps.h) are
  parameters of the model.
\<close>

record platform =
  PGSIZE :: uint
  KERNBASE :: uint
  IRQ_PCI0 :: uint

section \<open>Driver state and machine state\<close>

text \<open>
  \<^verbatim>\<open>static struct e1000 { ... } e1000;\<close> Pointers are addresses; \<^verbatim>\<open>char mac[6]\<close> is an
  array indexed from 0, modelled as a function of the index (only 0 to 5 are used).
\<close>

record e1000 =
  mmio_base :: uint
  mac :: "nat \<Rightarrow> uchar"
  rx :: uint
  rx_count :: uint
  rx_buf :: uint
  tx :: uint
  packet_count :: uint

text \<open>
  Modelled from the spec: the link-layer records of eth.h, which is not among the sources.
  The Ethernet header is destination address (6 bytes), source address (6 bytes) and
  ether-type (2 bytes); the ARP packet has hardware type, protocol type, the two address
  lengths, the operation, and sender and target hardware and protocol addresses.
\<close>

record eth_hdr =
  eth_dst :: "uchar list"
  eth_src :: "uchar list"
  ether_type :: ushort

record arp_packet =
  arp_htype :: ushort
  arp_ptype :: ushort
  arp_hlen :: uchar
  arp_plen :: uchar
  arp_oper :: ushort
  arp_sha :: "uchar list"
  arp_spa :: "uchar list"
  arp_tha :: "uchar list"
  arp_tpa :: "uchar list"

text \<open>What \<^verbatim>\<open>cprintf\<close>, \<^verbatim>\<open>dump_eth_hdr\<close> and \<^verbatim>\<open>dump_arp_packet\<close> put on the console.\<close>

datatype log_entry =
    Log_packet_count uint
  | Log_buffer uint
  | Log_packet_size uint
  | Log_end_of_packet uint
  | Log_text string
  | Log_eth_hdr eth_hdr
  | Log_arp_packet arp_packet

text \<open>
  How a driver entry point can stop instead of returning: a call of \<^verbatim>\<open>panic\<close> with its
  message, the divide trap, or the trap of an access through a null pointer, with the
  address accessed.
\<close>

datatype fault = Panic string | Divide_error | Page_fault uint

text \<open>
  The machine around the driver:
  \<^item> \<open>dev\<close> is the global \<^verbatim>\<open>e1000\<close>;
  \<^item> \<open>ram\<close> is byte-addressed memory (descriptor ring, buffer list, packet buffers);
    the global \<^verbatim>\<open>e1000\<close> and the card's registers are kept apart from it. A non-null
    pointer is taken to point to mapped memory; a null pointer points to none, and the
    one access that initialization makes through a pointer it has not tested is modelled
    with its trap (\<open>init_rx_slot\<close> below);
  \<^item> \<open>mmio\<close> holds the card's registers by absolute address, and \<open>mmio_writes\<close> lists
    every store the driver makes to them, in order;
  \<^item> \<open>eerd_in\<close> supplies the value of each successive load from the EEPROM-read
    register (the card changes it on its own), \<open>eerd_pos\<close> counts the loads made;
  \<^item> \<open>pci_addr\<close> is the last value written to the configuration address port,
    \<open>pci_cfg\<close> the byte the data port returns for each such value, and \<open>pci_writes\<close>
    lists the dwords written to the data port, each with the address selected then;
  \<^item> \<open>kalloc_pages\<close> lists what the next calls of \<^verbatim>\<open>kalloc\<close> return (0 is failure);
  \<^item> \<open>console\<close> is the diagnostic output;
  \<^item> \<open>rx_reads\<close> lists the subscripts at which \<^verbatim>\<open>e1000.rx[]\<close> has been read;
  \<^item> \<open>irqs\<close> lists the calls of \<^verbatim>\<open>ioapicenable\<close>.
\<close>

record machine =
  dev :: e1000
  ram :: "uint \<Rightarrow> uchar"
  mmio :: "uint \<Rightarrow> uint"
  mmio_writes :: "(uint \<times> uint) list"
  eerd_in :: "nat \<Rightarrow> uint"
  eerd_pos :: nat
  pci_addr :: uint
  pci_cfg :: "uint \<Rightarrow> uchar"
  pci_writes :: "(uint \<times> uint) list"
  kalloc_pages :: "uint list"
  console :: "log_entry list"
  rx_reads :: "uint list"
  irqs :: "(uint \<times> uint) list"

text \<open>
  An initialization that halts: the cause, and the machine as it stood at that moment
  (nothing is undone).
\<close>

type_synonym halt = "fault \<times> machine"

section \<open>Platform primitives\<close>

text \<open>
  Modelled from the spec: physical and virtual address translation (\<^verbatim>\<open>V2P\<close>, \<^verbatim>\<open>P2V\<close> of
  memlayout.h), a fixed offset between the two.
\<close>

definition V2P :: "platform \<Rightarrow> uint \<Rightarrow> uint" where
  "V2P pf a = a - KERNBASE pf"

definition P2V :: "platform \<Rightarrow> uint \<Rightarrow> uint" where
  "P2V pf a = a + KERNBASE pf"

text \<open>
  Modelled from the spec: page-granularity allocation (\<^verbatim>\<open>kalloc\<close>). It returns the
  address of a page, or 0 when none can be had.
\<close>

definition kalloc :: "machine \<Rightarrow> uint \<times> machine" where
  "kalloc s = (case kalloc_pages s of
                 [] \<Rightarrow> (0, s)
               | p # ps \<Rightarrow> (p, s\<lparr>kalloc_pages := ps\<rparr>))"

text \<open>
  \<^verbatim>\<open>memset(dst, c, n)\<close> on \<open>ram\<close>: the \<open>n\<close> bytes from \<open>dst\<close> on, addresses wrapping.
\<close>

definition memset :: "uint \<Rightarrow> uchar \<Rightarrow> uint \<Rightarrow> machine \<Rightarrow> machine" where
  "memset dst c n s = s\<lparr>ram := (\<lambda>a. if a - dst < n then c else ram s a)\<rparr>"

text \<open>Little-endian 32-bit stores and loads, as x86 makes them.\<close>

definition store32 :: "uint \<Rightarrow> uint \<Rightarrow> machine \<Rightarrow> machine" where
  "store32 a v s =
     s\<lparr>ram := (ram s)(a := ucast v,
                        a + 1 := ucast (drop_bit 8 v),
                        a + 2 := ucast (drop_bit 16 v),
                        a + 3 := ucast (drop_bit 24 v))\<rparr>"

definition le32 :: "uchar \<Rightarrow> uchar \<Rightarrow> uchar \<Rightarrow> uchar \<Rightarrow> uint" where
  "le32 b0 b1 b2 b3 =
     ucast b0 OR push_bit 8 (ucast b1) OR push_bit 16 (ucast b2) OR push_bit 24 (ucast b3)"

definition load32 :: "machine \<Rightarrow> uint \<Rightarrow> uint" where
  "load32 s a = le32 (ram s a) (ram s (a + 1)) (ram s (a + 2)) (ram s (a + 3))"

definition load_bytes :: "machine \<Rightarrow> uint \<Rightarrow> nat \<Rightarrow> uchar list" where
  "load_bytes s a n = map (\<lambda>k. ram s (a + of_nat k)) [0..<n]"

text \<open>A 16-bit field in network byte order: the first byte is the high one.\<close>

definition load_be16 :: "machine \<Rightarrow> uint \<Rightarrow> ushort" where
  "load_be16 s a = push_bit 8 (ucast (ram s a)) OR ucast (ram s (a + 1))"

text \<open>\<^verbatim>\<open>cprintf\<close> and the dump routines append to the console.\<close>

definition cprintf :: "log_entry list \<Rightarrow> machine \<Rightarrow> machine" where
  "cprintf es s = s\<lparr>console := console s @ es\<rparr>"

section \<open>Register access\<close>

text \<open>
  \<^verbatim>\<open>uint read_reg(uint reg) { return *(uint *)(e1000.mmio_base + reg); }\<close>
  \<^verbatim>\<open>void write_reg(uint reg, uint value) { *(uint *)(e1000.mmio_base + reg) = value; }\<close>
\<close>

definition mmio_store :: "uint \<Rightarrow> uint \<Rightarrow> machine \<Rightarrow> machine" where
  "mmio_store a v s = s\<lparr>mmio := (mmio s)(a := v), mmio_writes := mmio_writes s @ [(a, v)]\<rparr>"

definition read_reg :: "uint \<Rightarrow> machine \<Rightarrow> uint" where
  "read_reg reg s = mmio s (mmio_base (dev s) + reg)"

definition write_reg :: "uint \<Rightarrow> uint \<Rightarrow> machine \<Rightarrow> machine" where
  "write_reg reg v s = mmio_store (mmio_base (dev s) + reg) v s"

section \<open>Receive initialization: \<open>init_rx\<close>\<close>

text \<open>
  The loop of lines 210 to 222. Each round allocates a page, stores its address in slot
  \<open>i\<close> of the list at \<^verbatim>\<open>e1000.rx_buf\<close> (4-byte pointers), panics if the slot then
  holds 0, zeroes the page and writes the descriptor \<open>i\<close> of the ring at \<^verbatim>\<open>e1000.rx\<close>:
  \<^verbatim>\<open>struct rx_desc desc = { .addr = V2P(e1000.rx_buf[i]) };\<close> sets \<^verbatim>\<open>addr[0]\<close> and leaves
  the other three words 0. The source reads \<^verbatim>\<open>e1000.rx_buf[i]\<close> back from memory each
  time, and so does the model.

  The list pointer \<^verbatim>\<open>e1000.rx_buf\<close> comes from the \<^verbatim>\<open>kalloc\<close> of line 209 and is not
  tested. When it is null, the store \<^verbatim>\<open>e1000.rx_buf[i] = kalloc()\<close> of line 211 goes
  through a null pointer: the kernel traps there, which is the \<open>Page_fault\<close> outcome
  with the address of the slot. The pointers \<^verbatim>\<open>e1000.rx\<close> and \<^verbatim>\<open>e1000.rx_buf[i]\<close> are
  tested before they are used.
\<close>

definition rx_buf_slot :: "machine \<Rightarrow> uint \<Rightarrow> uint" where
  "rx_buf_slot s i = rx_buf (dev s) + 4 * i"

definition rx_desc_at :: "machine \<Rightarrow> uint \<Rightarrow> uint" where
  "rx_desc_at s i = rx (dev s) + sizeof_rx_desc * i"

definition store_rx_desc :: "uint \<Rightarrow> uint \<Rightarrow> uint \<Rightarrow> uint \<Rightarrow> uint \<Rightarrow> machine \<Rightarrow> machine" where
  "store_rx_desc a addr0 addr1 fields0 fields1 s =
     store32 (a + 12) fields1 (store32 (a + 8) fields0 (store32 (a + 4) addr1 (store32 a addr0 s)))"

definition init_rx_slot :: "platform \<Rightarrow> uint \<Rightarrow> machine \<Rightarrow> halt + machine" where
  "init_rx_slot pf i s =
     (let (p, s1) = kalloc s
      in if rx_buf (dev s1) = 0 then Inl (Page_fault (rx_buf_slot s1 i), s1)
         else
           let s2 = store32 (rx_buf_slot s1 i) p s1
           in if load32 s2 (rx_buf_slot s2 i) = 0
              then Inl (Panic ''failed to allocate buffer\<newline>'', s2)
              else
                let s3 = memset (load32 s2 (rx_buf_slot s2 i)) 0 (PGSIZE pf) s2;
                    s4 = store_rx_desc (rx_desc_at s3 i)
                           (V2P pf (load32 s3 (rx_buf_slot s3 i))) 0 0 0 s3
                in Inr s4)"

function init_rx_loop :: "platform \<Rightarrow> uint \<Rightarrow> machine \<Rightarrow> halt + machine" where
  "init_rx_loop pf i s =
     (if i < rx_count (dev s)
      then (case init_rx_slot pf i s of
              Inl e \<Rightarrow> Inl e
            | Inr s' \<Rightarrow> init_rx_loop pf (i + 1) s')
      else Inr s)"
  by pat_completeness auto
termination
proof (relation "measure (\<lambda>(pf, i, s). unat (rx_count (dev s)) - unat i)")
  show "wf (measure (\<lambda>(pf, i, s). unat (rx_count (dev s)) - unat i))" by simp
next
  fix pf :: platform and i :: uint and s s' :: machine
  assume lt: "i < rx_count (dev s)" and slot: "init_rx_slot pf i s = Inr s'"
  have eq: "dev s' = dev s"
    using slot
    by (auto simp add: init_rx_slot_def kalloc_def store_rx_desc_def store32_def memset_def
          Let_def split: list.splits if_splits)
  have b: "unat i < unat (rx_count (dev s))" using lt by (simp add: word_less_nat_alt)
  have "unat (rx_count (dev s)) < 2 ^ LENGTH(32)" by (rule unsigned_less)
  then have "unat i + unat (1 :: uint) < 2 ^ LENGTH(32)" using b by simp
  then have "unat (i + 1) = unat i + 1" by (simp add: unat_add_lem [THEN iffD1])
  then show "((pf, i + 1, s'), (pf, i, s)) \<in> measure (\<lambda>(pf, i, s). unat (rx_count (dev s)) - unat i)"
    using eq b by simp
qed

text \<open>
  \<^verbatim>\<open>init_rx\<close>, lines 181 to 236. The receive-control value is built as the source
  builds it, one bit-field at a time.
\<close>

definition rctl_reg :: uint where
  "rctl_reg = 0 OR push_bit 1 1 OR push_bit 2 1 OR push_bit 3 1 OR push_bit 4 1
                OR push_bit 5 1 OR push_bit 15 1 OR push_bit 16 3 OR push_bit 25 1"

definition init_rx :: "platform \<Rightarrow> machine \<Rightarrow> halt + machine" where
  "init_rx pf s =
     (let mac_low = le32 (mac (dev s) 0) (mac (dev s) 1) (mac (dev s) 2) (mac (dev s) 3);
          mac_high = le32 (mac (dev s) 4) (mac (dev s) 5) 0 0;
          s1 = write_reg RAL mac_low s;
          s2 = write_reg RAH mac_high s1;
          (p, s3) = kalloc s2;
          s4 = s3\<lparr>dev := (dev s3)\<lparr>rx := p\<rparr>\<rparr>
      in if rx (dev s4) = 0
         then Inl (Panic ''failed to allocate recieve descriptor buffer\<newline>'', s4)
         else
           let s5 = memset (rx (dev s4)) 0 (PGSIZE pf) s4;
               s6 = s5\<lparr>dev := (dev s5)\<lparr>rx_count := PGSIZE pf div sizeof_rx_desc\<rparr>\<rparr>;
               s7 = write_reg RDBAL (V2P pf (rx (dev s6))) s6;
               s8 = write_reg RDBAH 0 s7;
               s9 = write_reg RDLEN (PGSIZE pf) s8;
               s10 = write_reg RDH 0 s9;
               s11 = write_reg RDT 0 s10;
               (q, s12) = kalloc s11;
               s13 = s12\<lparr>dev := (dev s12)\<lparr>rx_buf := q\<rparr>\<rparr>
           in case init_rx_loop pf 0 s13 of
                Inl e \<Rightarrow> Inl e
              | Inr s14 \<Rightarrow>
                  Inr (write_reg RCTL rctl_reg (write_reg RDT (rx_count (dev s14) - 1) s14)))"

text \<open>
  The state in which \<^verbatim>\<open>init_rx\<close> enters its loop when the ring page was allocated:
  lines 182 to 209 without the test of line 193.
\<close>

definition init_rx_pre :: "platform \<Rightarrow> machine \<Rightarrow> machine" where
  "init_rx_pre pf s =
     (let mac_low = le32 (mac (dev s) 0) (mac (dev s) 1) (mac (dev s) 2) (mac (dev s) 3);
          mac_high = le32 (mac (dev s) 4) (mac (dev s) 5) 0 0;
          s1 = write_reg RAL mac_low s;
          s2 = write_reg RAH mac_high s1;
          (p, s3) = kalloc s2;
          s4 = s3\<lparr>dev := (dev s3)\<lparr>rx := p\<rparr>\<rparr>;
          s5 = memset (rx (dev s4)) 0 (PGSIZE pf) s4;
          s6 = s5\<lparr>dev := (dev s5)\<lparr>rx_count := PGSIZE pf div sizeof_rx_desc\<rparr>\<rparr>;
          s7 = write_reg RDBAL (V2P pf (rx (dev s6))) s6;
          s8 = write_reg RDBAH 0 s7;
          s9 = write_reg RDLEN (PGSIZE pf) s8;
          s10 = write_reg RDH 0 s9;
          s11 = write_reg RDT 0 s10;
          (q, s12) = kalloc s11
      in s12\<lparr>dev := (dev s12)\<lparr>rx_buf := q\<rparr>\<rparr>)"

section \<open>Transmit initialization and interrupt enablement\<close>

definition tctl_reg :: uint where
  "tctl_reg = 0 OR push_bit 1 1 OR push_bit 3 1 OR push_bit 4 0xF OR push_bit 12 0x200"

definition init_tx :: "platform \<Rightarrow> machine \<Rightarrow> halt + machine" where
  "init_tx pf s =
     (let (p, s1) = kalloc s;
          s2 = s1\<lparr>dev := (dev s1)\<lparr>tx := p\<rparr>\<rparr>
      in if tx (dev s2) = 0
         then Inl (Panic ''failed to allocate transmission buffer\<newline>'', s2)
         else
           let s3 = memset (tx (dev s2)) 0 (PGSIZE pf) s2;
               s4 = write_reg TDBAL (V2P pf (tx (dev s3))) s3;
               s5 = write_reg TDBAH 0 s4;
               s6 = write_reg TDLEN (PGSIZE pf) s5;
               s7 = write_reg TDH 0 s6;
               s8 = write_reg TDT 0 s7;
               s9 = write_reg TCTL tctl_reg s8
           in Inr (write_reg TIPG 0xA s9))"

definition init_intr :: "machine \<Rightarrow> machine" where
  "init_intr s =
     write_reg IMS (push_bit 0 1 OR push_bit 2 1 OR push_bit 3 1 OR push_bit 4 1
                      OR push_bit 6 1 OR push_bit 7 1) s"

section \<open>Link-layer parsing\<close>

text \<open>
  Modelled from the spec: \<^verbatim>\<open>eth_hdr_from_buf\<close>, \<^verbatim>\<open>arp_packet_from_buf\<close> and the sizes
  of their structures, which live in eth.h and eth.c, not among the sources. The Ethernet
  header takes the first 14 bytes of the buffer; the ARP packet has the standard wire
  layout (2, 2, 1, 1, 2, 6, 4, 6 and 4 bytes); 16-bit fields are in network byte order.
\<close>

definition sizeof_eth_hdr :: uint where "sizeof_eth_hdr = 14"

definition eth_hdr_from_buf :: "machine \<Rightarrow> uint \<Rightarrow> eth_hdr" where
  "eth_hdr_from_buf s buf =
     \<lparr>eth_dst = load_bytes s buf 6,
      eth_src = load_bytes s (buf + 6) 6,
      ether_type = load_be16 s (buf + 12)\<rparr>"

definition arp_packet_from_buf :: "machine \<Rightarrow> uint \<Rightarrow> arp_packet" where
  "arp_packet_from_buf s buf =
     \<lparr>arp_htype = load_be16 s buf,
      arp_ptype = load_be16 s (buf + 2),
      arp_hlen = ram s (buf + 4),
      arp_plen = ram s (buf + 5),
      arp_oper = load_be16 s (buf + 6),
      arp_sha = load_bytes s (buf + 8) 6,
      arp_spa = load_bytes s (buf + 14) 4,
      arp_tha = load_bytes s (buf + 18) 6,
      arp_tpa = load_bytes s (buf + 24) 4\<rparr>"

section \<open>Receive pipeline: \<open>read_packets\<close>\<close>

text \<open>
  Line 303: \<^verbatim>\<open>uint i = tail % (e1000.rx_count - 1);\<close>
\<close>

definition read_packets_i :: "uint \<Rightarrow> uint \<Rightarrow> uint" where
  "read_packets_i rx_cnt tail = tail mod (rx_cnt - 1)"

text \<open>
  Line 304: \<^verbatim>\<open>uint n = head > tail ? head - tail : (e1000.rx_count - tail - 1) + head;\<close>
  All operands are \<^verbatim>\<open>uint\<close>, so every operation wraps modulo \<open>2 ^ 32\<close>.
\<close>

definition read_packets_n :: "uint \<Rightarrow> uint \<Rightarrow> uint \<Rightarrow> uint" where
  "read_packets_n rx_cnt head tail =
     (if head > tail then head - tail else (rx_cnt - tail - 1) + head)"

text \<open>
  Line 306: \<^verbatim>\<open>const uint idx = (i + j) % (e1000.rx_count - 1);\<close>
\<close>

definition read_packets_idx :: "uint \<Rightarrow> uint \<Rightarrow> uint \<Rightarrow> uint" where
  "read_packets_idx rx_cnt i j = (i + j) mod (rx_cnt - 1)"

text \<open>
  Lines 317 to 346, run when the end-of-packet flag of the descriptor is set: the
  \<^verbatim>\<open>switch\<close> on \<^verbatim>\<open>hdr.ether_type\<close>, then \<^verbatim>\<open>dump_eth_hdr\<close>. The local \<^verbatim>\<open>offset\<close> is
  \<^verbatim>\<open>sizeof(struct eth_hdr)\<close> where the ARP packet is parsed; its later value is never used.
\<close>

definition dump_packet :: "uint \<Rightarrow> machine \<Rightarrow> machine" where
  "dump_packet buffer s =
     (let hdr = eth_hdr_from_buf s buffer;
          offset = 0 + sizeof_eth_hdr;
          s1 = (if ether_type hdr = ETH_TYPE_IPV4 then
                  cprintf [Log_text ''ETH_TYPE_IPV4\<newline>''] s
                else if ether_type hdr = ETH_TYPE_IPV6 then
                  cprintf [Log_text ''ETH_TYPE_IPV6\<newline>''] s
                else if ether_type hdr = ETH_TYPE_ARP then
                  (let s' = cprintf [Log_text ''ETH_TYPE_ARP\<newline>''] s;
                       packet = arp_packet_from_buf s' (buffer + offset)
                   in cprintf [Log_arp_packet packet] s')
                else
                  cprintf [Log_text ''ETH_TYPE_UNKNOWN\<newline>''] s)
      in cprintf [Log_eth_hdr hdr] s1)"

text \<open>
  One round of the loop, lines 306 to 348, for loop counter \<open>j\<close>. The descriptor is
  read from the ring at subscript \<open>idx\<close>; \<open>EOP\<close> is \<^verbatim>\<open>1 << 1\<close>.
\<close>

definition read_packet :: "platform \<Rightarrow> uint \<Rightarrow> uint \<Rightarrow> machine \<Rightarrow> machine" where
  "read_packet pf i j s =
     (let idx = read_packets_idx (rx_count (dev s)) i j;
          s0 = s\<lparr>rx_reads := rx_reads s @ [idx]\<rparr>;
          desc_addr0 = load32 s0 (rx_desc_at s0 idx);
          desc_fields0 = load32 s0 (rx_desc_at s0 idx + 8);
          desc_fields1 = load32 s0 (rx_desc_at s0 idx + 12);
          packet_size = desc_fields0 AND 0xFF;
          end_of_packet = drop_bit 1 (desc_fields1 AND push_bit 1 1);
          buffer = P2V pf desc_addr0;
          s1 = cprintf [Log_packet_count (packet_count (dev s0)), Log_buffer buffer,
                        Log_packet_size (desc_fields0 AND 0xFF),
                        Log_end_of_packet (drop_bit 1 (desc_fields1 AND push_bit 1 1))] s0;
          s2 = (if end_of_packet \<noteq> 0 then dump_packet buffer s1 else s1);
          s3 = cprintf [Log_text ''\<newline>\<newline>''] s2
      in s3\<lparr>dev := (dev s3)\<lparr>packet_count := packet_count (dev s3) + 1\<rparr>\<rparr>)"

text \<open>The loop \<^verbatim>\<open>for (uint j = 0; j < n; j++)\<close>.\<close>

function read_packets_loop :: "platform \<Rightarrow> uint \<Rightarrow> uint \<Rightarrow> uint \<Rightarrow> machine \<Rightarrow> machine" where
  "read_packets_loop pf i n j s =
     (if j < n then read_packets_loop pf i n (j + 1) (read_packet pf i j s) else s)"
  by pat_completeness auto
termination
proof (relation "measure (\<lambda>(pf, i, n, j, s). unat n - unat j)")
  show "wf (measure (\<lambda>(pf, i, n, j, s). unat n - unat j))" by simp
next
  fix pf :: platform and i n j :: uint and s :: machine
  assume lt: "j < n"
  have b: "unat j < unat n" using lt by (simp add: word_less_nat_alt)
  have "unat n < 2 ^ LENGTH(32)" by (rule unsigned_less)
  then have "unat j + unat (1 :: uint) < 2 ^ LENGTH(32)" using b by simp
  then have "unat (j + 1) = unat j + 1" by (simp add: unat_add_lem [THEN iffD1])
  then show "((pf, i, n, j + 1, read_packet pf i j s), (pf, i, n, j, s))
               \<in> measure (\<lambda>(pf, i, n, j, s). unat n - unat j)"
    using b by simp
qed

text \<open>
  \<^verbatim>\<open>read_packets\<close>, lines 296 to 352. The remainder by \<^verbatim>\<open>e1000.rx_count - 1\<close> traps on
  x86 when that divisor is 0; the trap is the \<open>Divide_error\<close> outcome.
\<close>

definition read_packets :: "platform \<Rightarrow> machine \<Rightarrow> fault + machine" where
  "read_packets pf s =
     (let tail = read_reg RDT s;
          head = read_reg RDH s
      in if rx_count (dev s) - 1 = 0 then Inl Divide_error
         else
           let i = read_packets_i (rx_count (dev s)) tail;
               n = read_packets_n (rx_count (dev s)) head tail;
               s1 = read_packets_loop pf i n 0 s
           in Inr (write_reg RDT (if head = 0 then rx_count (dev s1) - 1 else head - 1) s1))"

section \<open>Interrupt service routine: \<open>e1000_intr\<close>\<close>

text \<open>Lines 282 to 293; \<open>TXDW\<close> is \<^verbatim>\<open>1 << 0\<close> and \<open>RXT0\<close> is \<^verbatim>\<open>1 << 7\<close>.\<close>

definition e1000_intr :: "platform \<Rightarrow> machine \<Rightarrow> fault + machine" where
  "e1000_intr pf s =
     (let TXDW = push_bit 0 1;
          RXT0 = push_bit 7 1;
          mask = read_reg ICR s
      in if mask AND TXDW \<noteq> 0 then
           Inr (cprintf [Log_text ''transmit descriptor writeback\<newline>''] s)
         else if mask AND RXT0 \<noteq> 0 then read_packets pf s
         else Inr s)"

section \<open>Initialization: \<open>e1000init\<close>\<close>

text \<open>
  Modelled from the spec: raw port I/O (\<^verbatim>\<open>outdw\<close>, \<^verbatim>\<open>inb\<close> of x86.h) on the
  configuration index and data ports, the only ports the driver touches.
\<close>

definition outdw :: "ushort \<Rightarrow> uint \<Rightarrow> machine \<Rightarrow> machine" where
  "outdw port v s =
     (if port = PCI_CONFIG_ADDR then s\<lparr>pci_addr := v\<rparr>
      else if port = PCI_CONFIG_DATA then s\<lparr>pci_writes := pci_writes s @ [(pci_addr s, v)]\<rparr>
      else s)"

definition inb :: "ushort \<Rightarrow> machine \<Rightarrow> uchar" where
  "inb port s = (if port = PCI_CONFIG_DATA then pci_cfg s (pci_addr s) else 0)"

text \<open>
  The four byte-gathering loops of \<^verbatim>\<open>e1000init\<close> have one shape:
  \<^verbatim>\<open>for (i = hi, j = top; i >= lo; i--, j--) {
      outdw(PCI_CONFIG_ADDR, addr | i);
      uchar data = inb(PCI_CONFIG_DATA);
      acc = acc | (data << (j * 8)); }\<close>
  (the vendor loop shifts by \<^verbatim>\<open>i * 8\<close>, and there \<open>j\<close> is started equal to \<open>i\<close>). The
  accumulator is \<^verbatim>\<open>ushort\<close> or \<^verbatim>\<open>uint\<close>; the shifted byte is cut to its width.
\<close>

function cfg_gather ::
  "uint \<Rightarrow> int \<Rightarrow> int \<Rightarrow> int \<Rightarrow> 'a::len word \<Rightarrow> machine \<Rightarrow> 'a word \<times> machine" where
  "cfg_gather addr lo i j acc s =
     (if i \<ge> lo then
        (let s1 = outdw PCI_CONFIG_ADDR (addr OR word_of_int i) s;
             data = inb PCI_CONFIG_DATA s1
         in cfg_gather addr lo (i - 1) (j - 1) (acc OR push_bit (nat (j * 8)) (ucast data)) s1)
      else (acc, s))"
  by pat_completeness auto
termination
  by (relation "measure (\<lambda>(addr, lo, i, j, acc, s). nat (i - lo + 1))") auto

text \<open>
  The probe of lines 100 to 123: \<open>dev_no\<close> runs from 0 while it is below 4; the result
  is \<^verbatim>\<open>target_dev\<close>, -1 when no slot matched.
\<close>

function find_target_dev :: "int \<Rightarrow> machine \<Rightarrow> int \<times> machine" where
  "find_target_dev dev_no s =
     (if dev_no < 4 then
        (let addr = 0x80000000 OR push_bit 11 (word_of_int dev_no);
             (vendor_id, s1) = cfg_gather addr 0 1 1 (0 :: ushort) s;
             (device_id, s2) = cfg_gather addr 2 3 1 (0 :: ushort) s1
         in if vendor_id = VENDOR_ID \<and> device_id = DEVICE_ID then (dev_no, s2)
            else find_target_dev (dev_no + 1) s2)
      else (- 1, s))"
  by pat_completeness auto
termination
  by (relation "measure (\<lambda>(dev_no, s). nat (4 - dev_no))") auto

text \<open>
  The EEPROM-read register is reached through a raw pointer. A store goes to the card
  like any register store; each load returns what the card shows at that moment.
\<close>

definition eerd_load :: "machine \<Rightarrow> uint \<times> machine" where
  "eerd_load s = (eerd_in s (eerd_pos s), s\<lparr>eerd_pos := Suc (eerd_pos s)\<rparr>)"

text \<open>
  \<^verbatim>\<open>while (!(result & EEPROM_DONE)) { result = *(uint *)(addr); }\<close> with
  \<^verbatim>\<open>EEPROM_DONE = 0x00000010\<close>. The loop has no bound: \<open>None\<close> is "never returns".
\<close>

definition EEPROM_DONE :: uint where "EEPROM_DONE = 0x00000010"

partial_function (option) eerd_wait :: "uint \<Rightarrow> machine \<Rightarrow> machine option" where
  "eerd_wait result s =
     (if result AND EEPROM_DONE = 0
      then eerd_wait (fst (eerd_load s)) (snd (eerd_load s))
      else Some s)"

text \<open>
  One round of the loop of lines 156 to 165, for EEPROM word \<open>i\<close>: store the request,
  wait, load the register once more and copy the high half, low byte first, to
  \<^verbatim>\<open>e1000.mac + i * sizeof(ushort)\<close>.
\<close>

definition read_mac_word :: "int \<Rightarrow> machine \<Rightarrow> machine option" where
  "read_mac_word i s =
     (let addr = mmio_base (dev s) + ucast EERD;
          s1 = mmio_store addr (0x00000001 OR push_bit 8 (word_of_int i)) s
      in case eerd_wait 0 s1 of
           None \<Rightarrow> None
         | Some s2 \<Rightarrow>
             (let (v, s3) = eerd_load s2;
                  part = (ucast (drop_bit 16 v) :: ushort);
                  m = (mac (dev s3))(nat (i * 2) := ucast part,
                                     nat (i * 2) + 1 := ucast (drop_bit 8 part))
              in Some (s3\<lparr>dev := (dev s3)\<lparr>mac := m\<rparr>\<rparr>)))"

function read_mac :: "int \<Rightarrow> machine \<Rightarrow> machine option" where
  "read_mac i s =
     (if i < 3 then
        (case read_mac_word i s of
           None \<Rightarrow> None
         | Some s' \<Rightarrow> read_mac (i + 1) s')
      else Some s)"
  by pat_completeness auto
termination
  by (relation "measure (\<lambda>(i, s). nat (3 - i))") auto

text \<open>
  Modelled from the spec: \<^verbatim>\<open>ioapicenable\<close>, the interrupt controller's enable call; the
  model records the call.
\<close>

definition ioapicenable :: "uint \<Rightarrow> uint \<Rightarrow> machine \<Rightarrow> machine" where
  "ioapicenable irq cpu s = s\<lparr>irqs := irqs s @ [(irq, cpu)]\<rparr>"

text \<open>
  Lines 130 to 153: set the bus-master bit of the command register and read the first
  base-address register of slot \<open>target_dev\<close>.
\<close>

definition activate :: "int \<Rightarrow> machine \<Rightarrow> halt + machine" where
  "activate target_dev s =
     (let slot = 0x80000000 OR push_bit 11 (word_of_int target_dev);
          (command, s1) = cfg_gather slot 4 5 1 (0 :: uint) s;
          command' = command OR push_bit 2 1;
          s2 = outdw PCI_CONFIG_ADDR (slot OR 4) s1;
          s3 = outdw PCI_CONFIG_DATA command' s2;
          (mmio_addr, s4) = cfg_gather slot 16 19 3 (0 :: uint) s3
      in if mmio_addr = 0 then Inl (Panic ''failed to determine base address'', s4)
         else Inr (s4\<lparr>dev := (dev s4)\<lparr>mmio_base := mmio_addr\<rparr>\<rparr>))"

text \<open>
  \<^verbatim>\<open>e1000init\<close>, lines 95 to 171. The outer \<open>option\<close> is \<open>None\<close> when the EEPROM wait
  never ends.
\<close>

definition e1000init :: "platform \<Rightarrow> machine \<Rightarrow> (halt + machine) option" where
  "e1000init pf s =
     (let (target_dev, s1) = find_target_dev 0 s
      in if target_dev = - 1 then Some (Inr s1)
         else
           case activate target_dev s1 of
             Inl e \<Rightarrow> Some (Inl e)
           | Inr s2 \<Rightarrow>
               (case read_mac 0 s2 of
                  None \<Rightarrow> None
                | Some s3 \<Rightarrow>
                    (case init_rx pf s3 of
                       Inl e \<Rightarrow> Some (Inl e)
                     | Inr s4 \<Rightarrow>
                         (case init_tx pf s4 of
                            Inl e \<Rightarrow> Some (Inl e)
                          | Inr s5 \<Rightarrow>
                              Some (Inr (ioapicenable (IRQ_PCI0 pf) 0 (init_intr s5)))))))"

section \<open>Reference notions of the specification\<close>

text \<open>
  The brute-force circular distance the specification compares the count with: walk
  forward from \<open>p\<close> one slot at a time on a ring of \<open>M\<close> slots, wrapping after slot
  \<open>M - 1\<close>, and count the steps taken until \<open>h\<close> is reached. The first argument bounds
  the walk.
\<close>

fun circ_steps :: "nat \<Rightarrow> nat \<Rightarrow> nat \<Rightarrow> nat \<Rightarrow> nat" where
  "circ_steps 0 M p h = 0"
| "circ_steps (Suc f) M p h =
     (if p = h then 0 else Suc (circ_steps f M ((p + 1) mod M) h))"

definition forward_distance :: "nat \<Rightarrow> nat \<Rightarrow> nat \<Rightarrow> nat" where
  "forward_distance M tail head = circ_steps M M tail head"

text \<open>
  The subscripts at which one call of \<^verbatim>\<open>read_packets\<close> reads \<^verbatim>\<open>e1000.rx[]\<close>, in order.
\<close>

definition read_packets_reads :: "platform \<Rightarrow> machine \<Rightarrow> fault + uint list" where
  "read_packets_reads pf s =
     (case read_packets pf s of
        Inl e \<Rightarrow> Inl e
      | Inr s' \<Rightarrow> Inr (drop (length (rx_reads s)) (rx_reads s')))"

text \<open>
  Modelled from the spec: the wire form of the link-layer records, against which the
  parsers are checked. Addresses are 6 and 4 bytes long; a 16-bit field is sent high byte
  first.
\<close>

definition be16_bytes :: "ushort \<Rightarrow> uchar list" where
  "be16_bytes w = [ucast (drop_bit 8 w), ucast w]"

definition eth_hdr_bytes :: "eth_hdr \<Rightarrow> uchar list" where
  "eth_hdr_bytes h = eth_dst h @ eth_src h @ be16_bytes (ether_type h)"

definition eth_hdr_wf :: "eth_hdr \<Rightarrow> bool" where
  "eth_hdr_wf h = (length (eth_dst h) = 6 \<and> length (eth_src h) = 6)"

definition arp_packet_bytes :: "arp_packet \<Rightarrow> uchar list" where
  "arp_packet_bytes p =
     be16_bytes (arp_htype p) @ be16_bytes (arp_ptype p) @ [arp_hlen p, arp_plen p]
     @ be16_bytes (arp_oper p) @ arp_sha p @ arp_spa p @ arp_tha p @ arp_tpa p"

definition arp_packet_wf :: "arp_packet \<Rightarrow> bool" where
  "arp_packet_wf p =
     (length (arp_sha p) = 6 \<and> length (arp_spa p) = 4
      \<and> length (arp_tha p) = 6 \<and> length (arp_tpa p) = 4)"

text \<open>
  What the specification has the pipeline log for a frame with Ethernet header \<open>h\<close>,
  followed by the ARP packet \<open>p\<close> when the type is ARP: the name of the ether-type, the
  ARP packet only for ARP, and the Ethernet header whatever the type.
\<close>

definition frame_log :: "eth_hdr \<Rightarrow> arp_packet \<Rightarrow> log_entry list" where
  "frame_log h p =
     (if ether_type h = 0x0806 then [Log_text ''ETH_TYPE_ARP\<newline>'', Log_arp_packet p]
      else if ether_type h = 0x0800 then [Log_text ''ETH_TYPE_IPV4\<newline>'']
      else if ether_type h = 0x86DD then [Log_text ''ETH_TYPE_IPV6\<newline>'']
      else [Log_text ''ETH_TYPE_UNKNOWN\<newline>''])
     @ [Log_eth_hdr h]"

text \<open>
  What the pipeline logs for the descriptor at ring index \<open>idx\<close> when \<open>count\<close> packets
  have been counted: the four descriptor lines (packet length from the low byte of the
  first status word, end-of-packet flag from bit 1 of the second), the log of the frame in
  the descriptor's buffer if the end-of-packet flag is set, and the closing blank lines.
\<close>

definition descriptor_log :: "platform \<Rightarrow> machine \<Rightarrow> uint \<Rightarrow> uint \<Rightarrow> log_entry list" where
  "descriptor_log pf s count idx =
     (let fields0 = load32 s (rx_desc_at s idx + 8);
          fields1 = load32 s (rx_desc_at s idx + 12);
          buffer = P2V pf (load32 s (rx_desc_at s idx))
      in [Log_packet_count count, Log_buffer buffer, Log_packet_size (fields0 AND 0xFF),
          Log_end_of_packet (if bit fields1 1 then 1 else 0)]
         @ (if bit fields1 1
            then frame_log (eth_hdr_from_buf s buffer) (arp_packet_from_buf s (buffer + 14))
            else [])
         @ [Log_text ''\<newline>\<newline>''])"

text \<open>The value of the last store to the register at address \<open>a\<close> in a list of stores.\<close>

definition last_write :: "uint \<Rightarrow> (uint \<times> uint) list \<Rightarrow> uint option" where
  "last_write a ws = map_of (rev ws) a"

text \<open>
  Modelled from the spec: which slots of a ring of \<open>cap\<close> descriptors are available to
  hardware. Hardware advances from head and may use every slot it reaches before tail;
  the slot at tail is one past the last available one.
\<close>

definition hw_available :: "nat \<Rightarrow> nat \<Rightarrow> nat \<Rightarrow> nat \<Rightarrow> bool" where
  "hw_available cap head tail k =
     ((k + cap - head) mod cap < (tail + cap - head) mod cap)"

definition hw_unavailable_slots :: "nat \<Rightarrow> nat \<Rightarrow> nat \<Rightarrow> nat list" where
  "hw_unavailable_slots cap head tail =
     filter (\<lambda>k. \<not> hw_available cap head tail k) [0..<cap]"

text \<open>
  The identifiers of a slot as the configuration header lays them out: byte \<open>k\<close> of
  slot \<open>d\<close> is what the data port returns once the address word with the enable bit, the
  slot number in bits 11 and up and \<open>k\<close> in the low byte has been selected; the vendor
  identifier is bytes 0 and 1, the device identifier bytes 2 and 3, low byte first.
\<close>

definition cfg_byte :: "machine \<Rightarrow> int \<Rightarrow> int \<Rightarrow> uchar" where
  "cfg_byte s d k = pci_cfg s ((0x80000000 OR push_bit 11 (word_of_int d)) OR word_of_int k)"

definition slot_vendor_id :: "machine \<Rightarrow> int \<Rightarrow> ushort" where
  "slot_vendor_id s d = push_bit 8 (ucast (cfg_byte s d 1)) OR ucast (cfg_byte s d 0)"

definition slot_device_id :: "machine \<Rightarrow> int \<Rightarrow> ushort" where
  "slot_device_id s d = push_bit 8 (ucast (cfg_byte s d 3)) OR ucast (cfg_byte s d 2)"

definition slot_matches :: "machine \<Rightarrow> int \<Rightarrow> bool" where
  "slot_matches s d = (slot_vendor_id s d = 0x8086 \<and> slot_device_id s d = 0x100E)"

text \<open>
  The card's answers to EEPROM requests: counting the loads from the EEPROM-read
  register from \<open>p\<close> on, load \<open>k\<close> is the first to show the done bit (bit 4); and the
  data in bits 16 to 31 of load \<open>k\<close>.
\<close>

definition first_done :: "machine \<Rightarrow> nat \<Rightarrow> nat \<Rightarrow> bool" where
  "first_done s p k =
     (p \<le> k \<and> list_all (\<lambda>m. \<not> bit (eerd_in s m) 4) [p..<k] \<and> bit (eerd_in s k) 4)"

definition eerd_data :: "machine \<Rightarrow> nat \<Rightarrow> ushort" where
  "eerd_data s k = ucast (drop_bit 16 (eerd_in s k))"

section \<open>Concrete machines\<close>

text \<open>
  xv6 on x86: pages of 4096 bytes, the kernel mapped at \<open>0x80000000\<close>; the PCI interrupt
  line is 11.
\<close>

definition xv6 :: platform where
  "xv6 = \<lparr>PGSIZE = 4096, KERNBASE = 0x80000000, IRQ_PCI0 = 11\<rparr>"

text \<open>
  A machine before the driver has run: memory and registers zero, nothing on the
  console, no page to allocate, a configuration space that answers 0 everywhere.
\<close>

definition blank :: machine where
  "blank = \<lparr>dev = \<lparr>mmio_base = 0, mac = (\<lambda>k. 0), rx = 0, rx_count = 0, rx_buf = 0, tx = 0,
                    packet_count = 0\<rparr>,
            ram = (\<lambda>a. 0), mmio = (\<lambda>a. 0), mmio_writes = [],
            eerd_in = (\<lambda>k. 0), eerd_pos = 0,
            pci_addr = 0, pci_cfg = (\<lambda>a. 0), pci_writes = [],
            kalloc_pages = [], console = [], rx_reads = [], irqs = []\<rparr>"

text \<open>
  A machine after initialization on xv6: registers at \<open>0xFEBC0000\<close>, a ring of 256
  descriptors at \<open>0x8DFFF000\<close>, and the head and tail registers as given.
\<close>

definition ring_machine :: "uint \<Rightarrow> uint \<Rightarrow> machine" where
  "ring_machine head tail =
     blank\<lparr>dev := (dev blank)\<lparr>mmio_base := 0xFEBC0000, rx := 0x8DFFF000, rx_count := 256,
                                rx_buf := 0x8DFFE000\<rparr>,
           mmio := (\<lambda>a. if a = 0xFEBC0000 + RDH then head
                        else if a = 0xFEBC0000 + RDT then tail else 0)\<rparr>"

text \<open>The same machine with the interrupt cause register holding \<open>cause\<close>.\<close>

definition intr_machine :: "uint \<Rightarrow> machine" where
  "intr_machine cause =
     (ring_machine 3 255)\<lparr>mmio := (mmio (ring_machine 3 255))(0xFEBC0000 + ICR := cause)\<rparr>"

text \<open>Memory given by a table of bytes, 0 elsewhere.\<close>

definition ram_of :: "(uint \<times> uchar) list \<Rightarrow> uint \<Rightarrow> uchar" where
  "ram_of bs a = (case map_of bs a of None \<Rightarrow> 0 | Some b \<Rightarrow> b)"

text \<open>
  A machine whose descriptor 0 has the end-of-packet flag, length 42 and the buffer at
  physical \<open>0x0DFFD000\<close>; the buffer holds a broadcast ARP request from
  \<open>52:54:00:12:34:56\<close>, \<open>10.0.2.15\<close>, for \<open>10.0.2.2\<close>.
\<close>

definition arp_frame :: "uchar list" where
  "arp_frame =
     [0xFF, 0xFF, 0xFF, 0xFF, 0xFF, 0xFF, 0x52, 0x54, 0x00, 0x12, 0x34, 0x56, 0x08, 0x06,
      0x00, 0x01, 0x08, 0x00, 0x06, 0x04, 0x00, 0x01,
      0x52, 0x54, 0x00, 0x12, 0x34, 0x56, 10, 0, 2, 15,
      0x00, 0x00, 0x00, 0x00, 0x00, 0x00, 10, 0, 2, 2]"

text \<open>The header and the ARP packet that \<open>arp_frame\<close> is the wire form of.\<close>

definition arp_request_hdr :: eth_hdr where
  "arp_request_hdr =
     \<lparr>eth_dst = [0xFF, 0xFF, 0xFF, 0xFF, 0xFF, 0xFF],
      eth_src = [0x52, 0x54, 0x00, 0x12, 0x34, 0x56], ether_type = 0x0806\<rparr>"

definition arp_request :: arp_packet where
  "arp_request =
     \<lparr>arp_htype = 1, arp_ptype = 0x0800, arp_hlen = 6, arp_plen = 4, arp_oper = 1,
      arp_sha = [0x52, 0x54, 0x00, 0x12, 0x34, 0x56], arp_spa = [10, 0, 2, 15],
      arp_tha = [0, 0, 0, 0, 0, 0], arp_tpa = [10, 0, 2, 2]\<rparr>"

definition arp_machine :: machine where
  "arp_machine =
     (ring_machine 1 255)\<lparr>ram :=
        (\<lambda>a. if a - 0x8DFFD000 < 42 then arp_frame ! unat (a - 0x8DFFD000)
             else ram_of [(0x8DFFF000, 0x00), (0x8DFFF001, 0xD0), (0x8DFFF002, 0xFF),
                          (0x8DFFF003, 0x0D), (0x8DFFF008, 42), (0x8DFFF00C, 0x03)] a)\<rparr>"

text \<open>
  A machine at the point where \<^verbatim>\<open>e1000init\<close> calls \<^verbatim>\<open>init_rx\<close>: the register window and
  the station address are known, and \<^verbatim>\<open>kalloc\<close> will return \<open>pages\<close> in turn.
\<close>

definition boot_machine :: "uint list \<Rightarrow> machine" where
  "boot_machine pages =
     blank\<lparr>dev := (dev blank)\<lparr>mmio_base := 0xFEBC0000,
                mac := (\<lambda>k. if k < 6 then [0x52, 0x54, 0x00, 0x12, 0x34, 0x56] ! k else 0)\<rparr>,
           kalloc_pages := pages\<rparr>"

text \<open>
  256 distinct page addresses, \<open>0x8DE00000\<close> to \<open>0x8DEFF000\<close>, none of them 0 and none of
  them a page used for the ring or the list below.
\<close>

definition data_pages :: "uint list" where
  "data_pages = map (\<lambda>k. 0x8DE00000 OR push_bit 12 (of_nat k)) [0..<256]"

text \<open>A configuration space with the 82540EM (vendor 8086, device 100E) in slot 2 only.\<close>

definition pci_machine :: machine where
  "pci_machine =
     blank\<lparr>pci_cfg := (\<lambda>a. if a = 0x80001000 then 0x86 else if a = 0x80001001 then 0x80
                            else if a = 0x80001002 then 0x0E else if a = 0x80001003 then 0x10
                            else 0)\<rparr>"

text \<open>
  A card at \<open>0xFEBC0000\<close> whose EEPROM-read register shows, load after load: busy, then
  done with data \<open>0x5452\<close>; done with \<open>0x1200\<close>; busy, busy, then done with \<open>0x5634\<close>.
\<close>

definition eeprom_machine :: machine where
  "eeprom_machine =
     blank\<lparr>dev := (dev blank)\<lparr>mmio_base := 0xFEBC0000\<rparr>,
           eerd_in := (\<lambda>k. [0x00000001, 0x54520011, 0x54520011,
                             0x12000111, 0x12000111,
                             0x00000201, 0x00000201, 0x56340211, 0x56340211] ! min k 8)\<rparr>"

section \<open>Ring arithmetic\<close>

lemma circ_steps_same: "circ_steps f M p p = 0"
  by (cases f) simp_all

lemma circ_step_mod:
  assumes "p < M" "h < M" "p \<noteq> h"
  shows "(h + M - p) mod M = Suc ((h + M - (p + 1) mod M) mod M)"
proof (cases "p < h")
  case True
  then have "(p + 1) mod M = p + 1" using assms by simp
  moreover have "(h + M - p) mod M = h - p" using True assms
    by (metis Nat.add_diff_assoc2 less_imp_le_nat mod_add_self2 mod_less less_imp_diff_less)
  moreover have "(h + M - (p + 1)) mod M = h - (p + 1)" using True assms
    by (metis Nat.add_diff_assoc2 Suc_eq_plus1 Suc_leI mod_add_self2 mod_less less_imp_diff_less)
  ultimately show ?thesis using True by simp
next
  case False
  then have hp: "h < p" using assms by simp
  have a: "(h + M - p) mod M = h + M - p" using hp assms by simp
  show ?thesis
  proof (cases "p + 1 = M")
    case True
    then show ?thesis using a hp assms by simp
  next
    case False
    then have "(p + 1) mod M = p + 1" using assms by simp
    moreover have "(h + M - (p + 1)) mod M = h + M - (p + 1)" using hp assms by simp
    ultimately show ?thesis using a hp assms by simp
  qed
qed

lemma circ_steps_eq:
  "p < M \<Longrightarrow> h < M \<Longrightarrow> (h + M - p) mod M \<le> f \<Longrightarrow>
   circ_steps f M p h = (h + M - p) mod M"
proof (induction f arbitrary: p)
  case 0
  then show ?case by simp
next
  case (Suc f)
  show ?case
  proof (cases "p = h")
    case True
    then show ?thesis using Suc.prems by simp
  next
    case False
    let ?q = "(p + 1) mod M"
    have q: "?q < M" using Suc.prems by simp
    have d: "(h + M - p) mod M = Suc ((h + M - ?q) mod M)"
      using circ_step_mod Suc.prems False by simp
    then have "(h + M - ?q) mod M \<le> f" using Suc.prems by simp
    then have "circ_steps f M ?q h = (h + M - ?q) mod M"
      using Suc.IH q Suc.prems by simp
    then show ?thesis using False d by simp
  qed
qed

lemma forward_distance_eq:
  "t < M \<Longrightarrow> h < M \<Longrightarrow> forward_distance M t h = (h + M - t) mod M"
  unfolding forward_distance_def
  by (rule circ_steps_eq) (simp_all add: less_imp_le)

lemma read_packets_n_alt:
  "read_packets_n rx_cnt head tail =
     (if head > tail then head - tail else ((rx_cnt - 1) - tail) + head)"
  by (simp add: read_packets_n_def)

lemma read_packets_n_unat:
  assumes t: "tail < rx_cnt - 1" and h: "head < rx_cnt - 1" and ne: "head \<noteq> tail"
  shows "unat (read_packets_n rx_cnt head tail) =
           (unat head + unat (rx_cnt - 1) - unat tail) mod unat (rx_cnt - 1)"
proof -
  define c where "c = rx_cnt - 1"
  have tc: "unat tail < unat c" and hc: "unat head < unat c"
    using t h by (simp_all add: c_def word_less_nat_alt)
  show ?thesis
  proof (cases "tail < head")
    case True
    then have th: "unat tail < unat head" by (simp add: word_less_nat_alt)
    have "unat (head - tail) = unat head - unat tail"
      using True by (simp add: unat_sub less_imp_le)
    moreover have "(unat head + unat c - unat tail) mod unat c = unat head - unat tail"
    proof -
      have e: "unat head + unat c - unat tail = (unat head - unat tail) + unat c"
        using th by simp
      have "unat head - unat tail < unat c" using hc by simp
      then have "(unat head - unat tail + unat c) mod unat c = unat head - unat tail"
        by simp
      then show ?thesis by (simp only: e)
    qed
    ultimately show ?thesis using True by (simp add: read_packets_n_alt c_def)
  next
    case False
    then have "head < tail" using ne by simp
    then have ht: "unat head < unat tail" by (simp add: word_less_nat_alt)
    have s: "unat (c - tail) = unat c - unat tail"
      using tc by (simp add: unat_sub word_le_nat_alt less_imp_le)
    have "unat c < 2 ^ LENGTH(32)" by (rule unsigned_less)
    then have "unat (c - tail) + unat head < 2 ^ LENGTH(32)"
      using s ht tc by linarith
    then have "unat ((c - tail) + head) = unat c - unat tail + unat head"
      using s by (simp add: unat_add_lem [THEN iffD1])
    moreover have "(unat head + unat c - unat tail) mod unat c = unat c - unat tail + unat head"
      using ht tc by simp
    ultimately show ?thesis using False by (simp add: read_packets_n_alt c_def)
  qed
qed

text \<open>
  C1, as stated: for all head and tail in \<open>[0, capacity - 1)\<close> the count of line 304
  is the forward circular distance from tail to head. It fails where head equals tail:
  with 256 descriptors and both registers 0 the count is 255, while the walk from slot 0
  to slot 0 takes no step (on the ring of 255 usable slots and on the ring of 256).
\<close>

theorem read_packets_n_equal_counterexample:
  "(0 :: uint) < 256 - 1
     \<and> unat (read_packets_n 256 0 0) = 255
     \<and> unat (read_packets_n 256 0 0) \<noteq> forward_distance 255 0 0
     \<and> unat (read_packets_n 256 0 0) \<noteq> forward_distance 256 0 0"
  by (simp add: read_packets_n_def forward_distance_def circ_steps_same)

text \<open>
  C1, amended: for head and tail in \<open>[0, capacity - 1)\<close> with head different from tail,
  the count equals the forward circular distance from tail to head on the ring of the
  \<open>capacity - 1\<close> slots that the pipeline indexes; where head equals tail the count is
  \<open>capacity - 1\<close>, a full lap.
\<close>

theorem read_packets_n_forward_distance:
  assumes "tail < rx_cnt - 1" and "head < rx_cnt - 1"
  shows "unat (read_packets_n rx_cnt head tail) =
           (if head = tail then unat (rx_cnt - 1)
            else forward_distance (unat (rx_cnt - 1)) (unat tail) (unat head))"
proof (cases "head = tail")
  case True
  then show ?thesis by (simp add: read_packets_n_def)
next
  case False
  have "unat tail < unat (rx_cnt - 1)" and "unat head < unat (rx_cnt - 1)"
    using assms by (simp_all add: word_less_nat_alt)
  then have "forward_distance (unat (rx_cnt - 1)) (unat tail) (unat head) =
               (unat head + unat (rx_cnt - 1) - unat tail) mod unat (rx_cnt - 1)"
    by (rule forward_distance_eq)
  then show ?thesis using False read_packets_n_unat [OF assms False] by simp
qed

theorem read_packets_n_forward_distance_witness:
  "(3 :: uint) < 256 - 1 \<and> (1 :: uint) < 256 - 1
     \<and> unat (read_packets_n 256 1 3) = forward_distance 255 3 1
     \<and> unat (read_packets_n 256 1 3) = 253"
  using read_packets_n_forward_distance [of 3 256 1]
  by (simp add: read_packets_n_def)

section \<open>State bookkeeping\<close>

declare read_packets_loop.simps [simp del]
declare init_rx_loop.simps [simp del]
declare cfg_gather.simps [simp del]
declare find_target_dev.simps [simp del]
declare read_mac.simps [simp del]

lemma cprintf_fields [simp]:
  "dev (cprintf es s) = dev s" "ram (cprintf es s) = ram s" "mmio (cprintf es s) = mmio s"
  "mmio_writes (cprintf es s) = mmio_writes s" "rx_reads (cprintf es s) = rx_reads s"
  "console (cprintf es s) = console s @ es" "kalloc_pages (cprintf es s) = kalloc_pages s"
  by (simp_all add: cprintf_def)

lemma dump_packet_fields [simp]:
  "dev (dump_packet b s) = dev s" "ram (dump_packet b s) = ram s"
  "mmio (dump_packet b s) = mmio s" "mmio_writes (dump_packet b s) = mmio_writes s"
  "rx_reads (dump_packet b s) = rx_reads s"
  by (simp_all add: dump_packet_def Let_def)

lemma read_packet_fields [simp]:
  "rx_count (dev (read_packet pf i j s)) = rx_count (dev s)"
  "rx (dev (read_packet pf i j s)) = rx (dev s)"
  "mmio_base (dev (read_packet pf i j s)) = mmio_base (dev s)"
  "packet_count (dev (read_packet pf i j s)) = packet_count (dev s) + 1"
  "ram (read_packet pf i j s) = ram s"
  "mmio (read_packet pf i j s) = mmio s"
  "mmio_writes (read_packet pf i j s) = mmio_writes s"
  "rx_reads (read_packet pf i j s) = rx_reads s @ [read_packets_idx (rx_count (dev s)) i j]"
  by (simp_all add: read_packet_def Let_def)

lemma unat_word_succ:
  fixes j n :: "'a::len word"
  assumes "j < n"
  shows "unat (j + 1) = Suc (unat j)"
proof -
  have b: "unat j < unat n" using assms by (simp add: word_less_nat_alt)
  have c: "unat n < 2 ^ LENGTH('a)" by (rule unsigned_less)
  have "Suc (unat j) < 2 ^ LENGTH('a)" using b c by linarith
  then have "unat j + unat (1 :: 'a word) < 2 ^ LENGTH('a)" by simp
  then show ?thesis by (simp add: unat_add_lem [THEN iffD1])
qed

lemma read_packets_loop_fields:
  "rx_count (dev (read_packets_loop pf i n j s)) = rx_count (dev s)
   \<and> rx (dev (read_packets_loop pf i n j s)) = rx (dev s)
   \<and> mmio_base (dev (read_packets_loop pf i n j s)) = mmio_base (dev s)
   \<and> ram (read_packets_loop pf i n j s) = ram s
   \<and> mmio (read_packets_loop pf i n j s) = mmio s
   \<and> mmio_writes (read_packets_loop pf i n j s) = mmio_writes s"
proof (induction pf i n j s rule: read_packets_loop.induct)
  case (1 pf i n j s)
  show ?case
  proof (cases "j < n")
    case True
    then show ?thesis using "1.IH" by (simp add: read_packets_loop.simps [of pf i n j s])
  next
    case False
    then show ?thesis by (simp add: read_packets_loop.simps [of pf i n j s])
  qed
qed

lemma read_packets_loop_reads:
  "j \<le> n \<Longrightarrow>
   rx_reads (read_packets_loop pf i n j s) =
     rx_reads s @ map (\<lambda>k. read_packets_idx (rx_count (dev s)) i (of_nat k)) [unat j..<unat n]"
proof (induction pf i n j s rule: read_packets_loop.induct)
  case (1 pf i n j s)
  show ?case
  proof (cases "j < n")
    case True
    have suc: "unat (j + 1) = Suc (unat j)" using True by (rule unat_word_succ)
    have lt: "unat j < unat n" using True by (simp add: word_less_nat_alt)
    have le: "j + 1 \<le> n" using True by (rule inc_le)
    have "rx_reads (read_packets_loop pf i n (j + 1) (read_packet pf i j s)) =
            rx_reads (read_packet pf i j s)
              @ map (\<lambda>k. read_packets_idx (rx_count (dev s)) i (of_nat k)) [Suc (unat j)..<unat n]"
      using "1.IH" [OF True le] suc by simp
    moreover have "[unat j..<unat n] = unat j # [Suc (unat j)..<unat n]"
      using lt by (rule upt_conv_Cons)
    ultimately show ?thesis
      using True by (simp add: read_packets_loop.simps [of pf i n j s])
  next
    case False
    then have "j = n" using "1.prems" by simp
    then show ?thesis by (simp add: read_packets_loop.simps [of pf i n n s])
  qed
qed

section \<open>The receive pipeline\<close>




lemma write_reg_fields [simp]:
  "dev (write_reg r v s) = dev s" "ram (write_reg r v s) = ram s"
  "mmio (write_reg r v s) = (mmio s)(mmio_base (dev s) + r := v)"
  "mmio_writes (write_reg r v s) = mmio_writes s @ [(mmio_base (dev s) + r, v)]"
  "rx_reads (write_reg r v s) = rx_reads s" "console (write_reg r v s) = console s"
  "kalloc_pages (write_reg r v s) = kalloc_pages s"
  by (simp_all add: write_reg_def mmio_store_def)

lemma read_packets_Inr:
  assumes "rx_count (dev s) - 1 \<noteq> 0"
  shows "read_packets pf s =
           Inr (write_reg RDT
                  (if read_reg RDH s = 0 then rx_count (dev s) - 1 else read_reg RDH s - 1)
                  (read_packets_loop pf (read_packets_i (rx_count (dev s)) (read_reg RDT s))
                     (read_packets_n (rx_count (dev s)) (read_reg RDH s) (read_reg RDT s)) 0 s))"
  using assms by (simp add: read_packets_def Let_def read_packets_loop_fields)

lemma read_packets_reads_eq:
  assumes "rx_count (dev s) - 1 \<noteq> 0"
  shows "read_packets_reads pf s =
           Inr (map (\<lambda>k. read_packets_idx (rx_count (dev s))
                            (read_packets_i (rx_count (dev s)) (read_reg RDT s)) (of_nat k))
                  [0..<unat (read_packets_n (rx_count (dev s)) (read_reg RDH s) (read_reg RDT s))])"
  using assms
  by (simp add: read_packets_reads_def read_packets_Inr read_packets_loop_reads)

lemma read_packets_idx_less:
  assumes "rx_cnt - 1 \<noteq> 0"
  shows "read_packets_idx rx_cnt i j < rx_cnt - 1"
  unfolding read_packets_idx_def
  using assms by (simp add: word_mod_less_divisor word_greater_zero_iff)







lemma ring_machine_simps [simp]:
  "rx_count (dev (ring_machine h t)) = 256"
  "mmio_base (dev (ring_machine h t)) = 0xFEBC0000"
  "read_reg RDH (ring_machine h t) = h"
  "read_reg RDT (ring_machine h t) = t"
  "rx_reads (ring_machine h t) = []"
  "mmio_writes (ring_machine h t) = []"
  "console (ring_machine h t) = []"
  by (simp_all add: ring_machine_def blank_def read_reg_def RDH_def RDT_def)



text \<open>
  C10: on a ring of at least two descriptors, whatever the head and tail registers hold,
  \<^verbatim>\<open>read_packets\<close> returns and every subscript at which it reads \<^verbatim>\<open>e1000.rx[]\<close> is
  below \<open>rx_count - 1\<close>: the last slot is never read, and with \<open>rx_count\<close> as
  \<^verbatim>\<open>init_rx\<close> sets it the descriptor read lies inside the ring page.
\<close>

theorem read_packets_index_bound:
  assumes "1 < rx_count (dev s)"
  shows "\<exists>reads. read_packets_reads pf s = Inr reads
      \<and> (\<forall>idx \<in> set reads.
            idx < rx_count (dev s) - 1 \<and> idx \<noteq> rx_count (dev s) - 1
            \<and> (rx_count (dev s) = PGSIZE pf div sizeof_rx_desc \<longrightarrow>
                 unat sizeof_rx_desc * unat idx + unat sizeof_rx_desc \<le> unat (PGSIZE pf)))"
proof -
  define cnt where "cnt = rx_count (dev s)"
  have c1: "1 < unat cnt" using assms by (simp add: cnt_def word_less_nat_alt)
  then have "cnt \<noteq> 0" by auto
  then have uc: "unat (cnt - 1) = unat cnt - 1" by (rule unat_minus_one)
  have c0: "cnt - 1 \<noteq> 0"
  proof
    assume "cnt - 1 = 0"
    then have "unat (cnt - 1) = 0" by simp
    then show False using uc c1 by simp
  qed
  let ?reads = "map (\<lambda>k. read_packets_idx cnt
                            (read_packets_i cnt (read_reg RDT s)) (of_nat k))
                  [0..<unat (read_packets_n cnt (read_reg RDH s) (read_reg RDT s))]"
  have eq: "read_packets_reads pf s = Inr ?reads"
    using c0 by (simp add: read_packets_reads_eq cnt_def)
  have b: "idx < cnt - 1" if "idx \<in> set ?reads" for idx
    using that c0 by (auto simp add: read_packets_idx_less)
  have pg: "unat sizeof_rx_desc * unat idx + unat sizeof_rx_desc \<le> unat (PGSIZE pf)"
    if "idx \<in> set ?reads" and e: "cnt = PGSIZE pf div sizeof_rx_desc" for idx
  proof -
    have "unat idx < unat cnt - 1" using b [OF that(1)] uc by (simp add: word_less_nat_alt)
    then have "Suc (unat idx) \<le> unat (PGSIZE pf) div 16"
      using e by (simp add: unat_div sizeof_rx_desc_def)
    then have "16 * Suc (unat idx) \<le> unat (PGSIZE pf)" by simp
    then show ?thesis by (simp add: sizeof_rx_desc_def)
  qed
  show ?thesis using eq b pg unfolding cnt_def [symmetric] by blast
qed

theorem read_packets_index_bound_witness:
  "1 < rx_count (dev (ring_machine 300 298))
     \<and> rx_count (dev (ring_machine 300 298)) = PGSIZE xv6 div sizeof_rx_desc
     \<and> read_packets_reads xv6 (ring_machine 300 298) = Inr [43, 44]
     \<and> (43 :: uint) < rx_count (dev (ring_machine 300 298)) - 1
     \<and> (44 :: uint) < rx_count (dev (ring_machine 300 298)) - 1
     \<and> unat sizeof_rx_desc * unat (44 :: uint) + unat sizeof_rx_desc \<le> unat (PGSIZE xv6)"
  using read_packets_index_bound [of "ring_machine 300 298" xv6]
  by (simp add: read_packets_reads_eq read_packets_n_def read_packets_i_def
        read_packets_idx_def upt_rec xv6_def sizeof_rx_desc_def)

lemma read_packets_regs:
  assumes "rx_count (dev s) - 1 \<noteq> 0" and "read_packets pf s = Inr s'"
  shows "read_reg RDT s' = (if read_reg RDH s = 0 then rx_count (dev s) - 1 else read_reg RDH s - 1)"
    and "read_reg RDH s' = read_reg RDH s"
    and "rx_count (dev s') = rx_count (dev s)"
    and "mmio_writes s' = mmio_writes s @ [(mmio_base (dev s) + RDT, 
           if read_reg RDH s = 0 then rx_count (dev s) - 1 else read_reg RDH s - 1)]"
  using assms
  by (auto simp add: read_packets_Inr read_reg_def read_packets_loop_fields RDH_def RDT_def)

text \<open>
  The count that a second call computes from the tail the first call wrote: 1 for every
  head but 0.
\<close>

lemma read_packets_n_after:
  "read_packets_n rx_cnt head (if head = 0 then rx_cnt - 1 else head - 1) = (if head = 0 then 0 else 1)"
proof (cases "head = 0")
  case True
  then show ?thesis by (simp add: read_packets_n_def)
next
  case False
  then have "unat (head - 1) = unat head - 1" by (rule unat_minus_one)
  moreover have "0 < unat head" using False by (simp add: unat_gt_0)
  ultimately have "head - 1 < head" by (simp add: word_less_nat_alt)
  then show ?thesis using False by (simp add: read_packets_n_def)
qed

text \<open>
  C2 at the machine initialization leaves once three packets have arrived (head 3, tail
  255, 256 descriptors): the call reads descriptors 0, 1 and 2 and writes tail 2, which
  is head - 1; a second call with the registers untouched counts 1 descriptor, not 0,
  and reads descriptor 2 again.
\<close>

theorem read_packets_again_failing:
  "(case read_packets xv6 (ring_machine 3 255) of
      Inl e \<Rightarrow> False
    | Inr s' \<Rightarrow>
        read_reg RDH s' = 3 \<and> read_reg RDT s' = 2
        \<and> read_packets_n (rx_count (dev s')) (read_reg RDH s') (read_reg RDT s') = 1
        \<and> read_packets_reads xv6 s' = Inr [2])
   \<and> read_packets_reads xv6 (ring_machine 3 255) = Inr [0, 1, 2]"
proof -
  have c: "rx_count (dev (ring_machine 3 255)) - 1 \<noteq> 0" by simp
  obtain s' where s': "read_packets xv6 (ring_machine 3 255) = Inr s'"
    using c by (simp add: read_packets_Inr)
  have h: "read_reg RDH s' = 3" and t: "read_reg RDT s' = 2" and n: "rx_count (dev s') = 256"
    using read_packets_regs(1-3) [OF c s'] by simp_all
  have "read_packets_reads xv6 s' = Inr [2]"
    by (simp add: read_packets_reads_eq h t n read_packets_n_def read_packets_i_def
          read_packets_idx_def upt_rec)
  moreover have "read_packets_n (rx_count (dev s')) (read_reg RDH s') (read_reg RDT s') = 1"
    by (simp add: h t n read_packets_n_def)
  moreover have "read_packets_reads xv6 (ring_machine 3 255) = Inr [0, 1, 2]"
    by (simp add: read_packets_reads_eq read_packets_n_def read_packets_i_def
          read_packets_idx_def upt_rec)
  ultimately show ?thesis using s' h t by simp
qed

section \<open>Interrupt dispatch and header dispatch\<close>

lemma and_bit0: "(m AND push_bit 0 1 \<noteq> 0) = bit (m :: uint) 0"
  using and_exp_eq_0_iff_not_bit [of m 0] by simp

lemma and_bit7: "(m AND push_bit 7 1 \<noteq> 0) = bit (m :: uint) 7"
  using and_exp_eq_0_iff_not_bit [of m 7] by (simp add: push_bit_of_1)

text \<open>
  C5, amended: for every value read from the interrupt cause register, the service
  routine produces only the diagnostic log entry when bit 0 (transmit descriptor
  writeback) is set, whatever the other bits are; it invokes the receive pipeline when
  bit 7 (receive timer) is set and bit 0 is clear; otherwise it does nothing. No other
  bit has any influence.
\<close>

theorem e1000_intr_dispatch:
  "e1000_intr pf s =
     (if bit (read_reg ICR s) 0 then
        Inr (cprintf [Log_text ''transmit descriptor writeback\<newline>''] s)
      else if bit (read_reg ICR s) 7 then read_packets pf s
      else Inr s)"
  unfolding e1000_intr_def Let_def and_bit0 and_bit7 ..

lemma intr_machine_simps [simp]:
  "rx_count (dev (intr_machine c)) = 256"
  "mmio_base (dev (intr_machine c)) = 0xFEBC0000"
  "read_reg ICR (intr_machine c) = c"
  "mmio_writes (intr_machine c) = []"
  "console (intr_machine c) = []"
  by (simp_all add: intr_machine_def ring_machine_def blank_def read_reg_def)

text \<open>
  C5, as stated: the receive pipeline runs whenever bit 7 is set. With cause \<open>0x81\<close>
  (bits 0 and 7) the routine only logs; the pipeline, which would have written the tail
  register, is not run.
\<close>

theorem e1000_intr_both_counterexample:
  "bit (read_reg ICR (intr_machine 0x81)) 7
     \<and> e1000_intr xv6 (intr_machine 0x81) \<noteq> read_packets xv6 (intr_machine 0x81)
     \<and> e1000_intr xv6 (intr_machine 0x81) =
         Inr (cprintf [Log_text ''transmit descriptor writeback\<newline>''] (intr_machine 0x81))"
proof -
  have c: "rx_count (dev (intr_machine 0x81)) - 1 \<noteq> 0" by simp
  have e: "e1000_intr xv6 (intr_machine 0x81) =
         Inr (cprintf [Log_text ''transmit descriptor writeback\<newline>''] (intr_machine 0x81))"
    by (simp add: e1000_intr_def)
  obtain s' where s': "read_packets xv6 (intr_machine 0x81) = Inr s'"
    using c by (simp add: read_packets_Inr)
  have "mmio_writes s' \<noteq> []" using read_packets_regs(4) [OF c s'] by simp
  then have "s' \<noteq> cprintf [Log_text ''transmit descriptor writeback\<newline>''] (intr_machine 0x81)"
    by auto
  then show ?thesis using e s' by simp
qed

text \<open>
  The parsers decode what the wire form encodes: a buffer holding the bytes of a header
  (of a packet) parses to that header (that packet).
\<close>

lemma load_bytes_length [simp]: "length (load_bytes s b n) = n"
  by (simp add: load_bytes_def)

lemma load_bytes_2: "load_bytes s b 2 = [ram s b, ram s (b + 1)]"
  by (simp add: load_bytes_def upt_rec)

lemma load_bytes_append:
  "load_bytes s b (m + n) = load_bytes s b m @ load_bytes s (b + of_nat m) n"
proof -
  have a: "[0..<m + n] = [0..<m] @ [m..<m + n]"
    by (rule upt_add_eq_append) simp
  have "[m..<m + n] = map (\<lambda>i. i + m) [0..<n]"
    by (simp only: map_add_upt add.commute [of m n])
  then have "map (\<lambda>k. ram s (b + of_nat k)) [m..<m + n] =
               map (\<lambda>k. ram s (b + of_nat m + of_nat k)) [0..<n]"
    by (simp add: o_def ac_simps)
  then show ?thesis unfolding load_bytes_def a by simp
qed


lemma be16_join:
  "push_bit 8 (ucast (ucast (drop_bit 8 t) :: uchar)) OR ucast (ucast t :: uchar) = (t :: ushort)"
  apply (rule bit_word_eqI)
  apply (auto simp add: bit_simps)
  done

lemma load_be16_bytes:
  "load_bytes s b 2 = be16_bytes w \<Longrightarrow> load_be16 s b = w"
  by (simp add: load_bytes_2 be16_bytes_def load_be16_def be16_join)

lemma eth_hdr_round_trip:
  assumes wf: "eth_hdr_wf h" and b: "load_bytes s b 14 = eth_hdr_bytes h"
  shows "eth_hdr_from_buf s b = h"
proof -
  have "load_bytes s b (6 + (6 + 2)) =
          load_bytes s b 6 @ load_bytes s (b + 6) 6 @ load_bytes s (b + 12) 2"
    by (simp only: load_bytes_append) (simp add: add.assoc)
  then have "load_bytes s b 6 @ load_bytes s (b + 6) 6 @ load_bytes s (b + 12) 2 =
               eth_dst h @ eth_src h @ be16_bytes (ether_type h)"
    using b by (simp add: eth_hdr_bytes_def)
  then have "load_bytes s b 6 = eth_dst h" "load_bytes s (b + 6) 6 = eth_src h"
    "load_bytes s (b + 12) 2 = be16_bytes (ether_type h)"
    using wf by (simp_all add: eth_hdr_wf_def append_eq_append_conv)
  then show ?thesis by (simp add: eth_hdr_from_buf_def load_be16_bytes)
qed

lemma load_bytes_sub:
  assumes "load_bytes s b (m + n + r) = bs"
  shows "load_bytes s (b + of_nat m) n = take n (drop m bs)"
proof -
  have "load_bytes s b (m + (n + r)) =
          load_bytes s b m @ load_bytes s (b + of_nat m) n
          @ load_bytes s (b + of_nat m + of_nat n) r"
    by (simp only: load_bytes_append)
  then have "bs = load_bytes s b m @ load_bytes s (b + of_nat m) n
          @ load_bytes s (b + of_nat m + of_nat n) r"
    using assms by (simp add: add.assoc)
  then show ?thesis by simp
qed

lemma arp_packet_round_trip:
  assumes wf: "arp_packet_wf p" and b: "load_bytes s b 28 = arp_packet_bytes p"
  shows "arp_packet_from_buf s b = p"
proof -
  note l = wf [unfolded arp_packet_wf_def]
  have sub: "load_bytes s (b + of_nat m) n = take n (drop m (arp_packet_bytes p))"
    if "m + n + r = 28" for m n r
    using load_bytes_sub [of s b m n r] b that by simp
  have c: "load_bytes s b 2 = be16_bytes (arp_htype p)"
    "load_bytes s (b + 2) 2 = be16_bytes (arp_ptype p)"
    "load_bytes s (b + 4) 2 = [arp_hlen p, arp_plen p]"
    "load_bytes s (b + 6) 2 = be16_bytes (arp_oper p)"
    "load_bytes s (b + 8) 6 = arp_sha p" "load_bytes s (b + 14) 4 = arp_spa p"
    "load_bytes s (b + 18) 6 = arp_tha p" "load_bytes s (b + 24) 4 = arp_tpa p"
    using sub [of 0 2 26] sub [of 2 2 24] sub [of 4 2 22] sub [of 6 2 20] sub [of 8 6 14]
      sub [of 14 4 10] sub [of 18 6 4] sub [of 24 4 0] l
    by (simp_all add: arp_packet_bytes_def be16_bytes_def)
  have "ram s (b + 4) = arp_hlen p" "ram s (b + 5) = arp_plen p"
    using c(3) by (simp_all add: load_bytes_2 add.assoc)
  then show ?thesis using c by (simp add: arp_packet_from_buf_def load_be16_bytes)
qed

lemma eop_flag:
  "drop_bit 1 ((f :: uint) AND push_bit 1 1) = (if bit f 1 then 1 else 0)"
  apply (rule bit_word_eqI)
  subgoal for n by (cases n) (auto simp add: bit_simps)
  done

lemma parse_cprintf [simp]:
  "eth_hdr_from_buf (cprintf es s) b = eth_hdr_from_buf s b"
  "arp_packet_from_buf (cprintf es s) b = arp_packet_from_buf s b"
  "load32 (cprintf es s) a = load32 s a"
  by (simp_all add: eth_hdr_from_buf_def arp_packet_from_buf_def load_bytes_def load_be16_def
        load32_def)

lemma parse_rx_reads [simp]:
  "eth_hdr_from_buf (s\<lparr>rx_reads := r\<rparr>) b = eth_hdr_from_buf s b"
  "arp_packet_from_buf (s\<lparr>rx_reads := r\<rparr>) b = arp_packet_from_buf s b"
  "load32 (s\<lparr>rx_reads := r\<rparr>) a = load32 s a"
  "rx_desc_at (s\<lparr>rx_reads := r\<rparr>) k = rx_desc_at s k"
  by (simp_all add: eth_hdr_from_buf_def arp_packet_from_buf_def load_bytes_def load_be16_def
        load32_def rx_desc_at_def)

lemma dump_packet_console:
  "console (dump_packet buffer s) =
     console s
     @ frame_log (eth_hdr_from_buf s buffer) (arp_packet_from_buf s (buffer + 14))"
  by (simp add: dump_packet_def frame_log_def Let_def ETH_TYPE_ARP_def ETH_TYPE_IPV4_def
        ETH_TYPE_IPV6_def sizeof_eth_hdr_def)

text \<open>One round of the loop appends the log of the descriptor it reads.\<close>

lemma read_packet_console:
  "console (read_packet pf i j s) =
     console s
     @ descriptor_log pf s (packet_count (dev s)) (read_packets_idx (rx_count (dev s)) i j)"
proof -
  define idx where "idx = read_packets_idx (rx_count (dev s)) i j"
  show ?thesis
    unfolding read_packet_def descriptor_log_def idx_def [symmetric] Let_def parse_rx_reads
      parse_cprintf eop_flag
    by (simp add: dump_packet_console)
qed

lemma descriptor_log_cong:
  assumes "ram s' = ram s" and "rx (dev s') = rx (dev s)"
  shows "descriptor_log pf s' c idx = descriptor_log pf s c idx"
  using assms
  by (simp add: descriptor_log_def Let_def load32_def rx_desc_at_def eth_hdr_from_buf_def
        arp_packet_from_buf_def load_bytes_def load_be16_def)

lemma read_packets_loop_console:
  "j \<le> n \<Longrightarrow>
   console (read_packets_loop pf i n j s) =
     console s
     @ concat (map (\<lambda>k. descriptor_log pf s (packet_count (dev s) + of_nat (k - unat j))
                          (read_packets_idx (rx_count (dev s)) i (of_nat k)))
                [unat j..<unat n])"
proof (induction pf i n j s rule: read_packets_loop.induct)
  case (1 pf i n j s)
  show ?case
  proof (cases "j < n")
    case True
    let ?s1 = "read_packet pf i j s"
    have suc: "unat (j + 1) = Suc (unat j)" using True by (rule unat_word_succ)
    have lt: "unat j < unat n" using True by (simp add: word_less_nat_alt)
    have le: "j + 1 \<le> n" using True by (rule inc_le)
    have cong: "descriptor_log pf ?s1 c idx = descriptor_log pf s c idx" for c idx
      by (rule descriptor_log_cong) simp_all
    have shift: "packet_count (dev ?s1) + of_nat (k - Suc (unat j)) =
                   packet_count (dev s) + of_nat (k - unat j)"
      if "Suc (unat j) \<le> k" for k
    proof -
      have "k - unat j = Suc (k - Suc (unat j))" using that by simp
      then show ?thesis by simp
    qed
    have "console (read_packets_loop pf i n (j + 1) ?s1) =
            console ?s1
            @ concat (map (\<lambda>k. descriptor_log pf s
                                 (packet_count (dev ?s1) + of_nat (k - Suc (unat j)))
                                 (read_packets_idx (rx_count (dev s)) i (of_nat k)))
                       [Suc (unat j)..<unat n])"
      using "1.IH" [OF True le] by (simp add: suc cong)
    also have "map (\<lambda>k. descriptor_log pf s
                                 (packet_count (dev ?s1) + of_nat (k - Suc (unat j)))
                                 (read_packets_idx (rx_count (dev s)) i (of_nat k)))
                       [Suc (unat j)..<unat n] =
               map (\<lambda>k. descriptor_log pf s (packet_count (dev s) + of_nat (k - unat j))
                                 (read_packets_idx (rx_count (dev s)) i (of_nat k)))
                       [Suc (unat j)..<unat n]"
      by (rule map_cong) (simp_all add: shift)
    finally have step: "console (read_packets_loop pf i n (j + 1) ?s1) =
            console ?s1
            @ concat (map (\<lambda>k. descriptor_log pf s (packet_count (dev s) + of_nat (k - unat j))
                                 (read_packets_idx (rx_count (dev s)) i (of_nat k)))
                       [Suc (unat j)..<unat n])" .
    have u: "[unat j..<unat n] = unat j # [Suc (unat j)..<unat n]"
      using lt by (rule upt_conv_Cons)
    show ?thesis
      using True unfolding u
      by (simp add: read_packets_loop.simps [of pf i n j s] step read_packet_console)
  next
    case False
    then have "j = n" using "1.prems" by simp
    then show ?thesis by (simp add: read_packets_loop.simps [of pf i n n s])
  qed
qed

lemma frame_log_not_arp:
  "ether_type h \<noteq> 0x0806 \<Longrightarrow> frame_log h p = frame_log h p'"
  by (simp add: frame_log_def)

text \<open>
  C7: a call of the pipeline that does not trap returns, and has appended to the console,
  for each descriptor it reads and in the order it reads them, the log of that descriptor.
  For every descriptor whose end-of-packet flag is set and whose buffer starts with the
  wire form of an Ethernet header \<open>h\<close> (followed, when the ether-type is \<open>0x0806\<close>, by
  the wire form of an ARP packet \<open>p\<close>), that log is the four descriptor lines, then the
  log of the frame: for \<open>0x0806\<close> the ARP name and \<open>p\<close> with all its fields as they were
  encoded, for \<open>0x0800\<close> and \<open>0x86DD\<close> the name alone, for any other type "unknown"; then,
  whatever the type, the header \<open>h\<close>.
\<close>

theorem read_packets_header_dispatch:
  assumes "rx_count (dev s) - 1 \<noteq> 0"
  shows "(\<exists>s'. read_packets pf s = Inr s'
           \<and> console s' =
               console s
               @ concat (map (\<lambda>k. descriptor_log pf s (packet_count (dev s) + of_nat k)
                                    (read_packets_idx (rx_count (dev s))
                                       (read_packets_i (rx_count (dev s)) (read_reg RDT s))
                                       (of_nat k)))
                          [0..<unat (read_packets_n (rx_count (dev s)) (read_reg RDH s)
                                       (read_reg RDT s))]))
     \<and> (\<forall>c idx h p.
           bit (load32 s (rx_desc_at s idx + 12)) 1
           \<and> eth_hdr_wf h
           \<and> load_bytes s (P2V pf (load32 s (rx_desc_at s idx))) 14 = eth_hdr_bytes h
           \<and> (ether_type h = 0x0806 \<longrightarrow>
                arp_packet_wf p
                \<and> load_bytes s (P2V pf (load32 s (rx_desc_at s idx)) + 14) 28
                    = arp_packet_bytes p)
           \<longrightarrow> descriptor_log pf s c idx =
                 [Log_packet_count c, Log_buffer (P2V pf (load32 s (rx_desc_at s idx))),
                  Log_packet_size (load32 s (rx_desc_at s idx + 8) AND 0xFF),
                  Log_end_of_packet 1]
                 @ frame_log h p @ [Log_text ''\<newline>\<newline>''])"
proof (intro conjI allI impI)
  show "\<exists>s'. read_packets pf s = Inr s'
           \<and> console s' =
               console s
               @ concat (map (\<lambda>k. descriptor_log pf s (packet_count (dev s) + of_nat k)
                                    (read_packets_idx (rx_count (dev s))
                                       (read_packets_i (rx_count (dev s)) (read_reg RDT s))
                                       (of_nat k)))
                          [0..<unat (read_packets_n (rx_count (dev s)) (read_reg RDH s)
                                       (read_reg RDT s))])"
    using assms by (simp add: read_packets_Inr read_packets_loop_console)
next
  fix c idx h p
  let ?b = "P2V pf (load32 s (rx_desc_at s idx))"
  assume a: "bit (load32 s (rx_desc_at s idx + 12)) 1
           \<and> eth_hdr_wf h
           \<and> load_bytes s ?b 14 = eth_hdr_bytes h
           \<and> (ether_type h = 0x0806 \<longrightarrow>
                arp_packet_wf p \<and> load_bytes s (?b + 14) 28 = arp_packet_bytes p)"
  have h: "eth_hdr_from_buf s ?b = h" using a by (simp add: eth_hdr_round_trip)
  have "frame_log h (arp_packet_from_buf s (?b + 14)) = frame_log h p"
  proof (cases "ether_type h = 0x0806")
    case True
    then have "arp_packet_from_buf s (?b + 14) = p" using a by (simp add: arp_packet_round_trip)
    then show ?thesis by simp
  next
    case False
    then show ?thesis by (rule frame_log_not_arp)
  qed
  then show "descriptor_log pf s c idx =
                 [Log_packet_count c, Log_buffer ?b,
                  Log_packet_size (load32 s (rx_desc_at s idx + 8) AND 0xFF),
                  Log_end_of_packet 1]
                 @ frame_log h p @ [Log_text ''\<newline>\<newline>'']"
    using a by (simp add: descriptor_log_def Let_def h)
qed

lemma arp_machine_desc:
  "load32 arp_machine (rx_desc_at arp_machine 0) = 0x0DFFD000"
  "load32 arp_machine (rx_desc_at arp_machine 0 + 8) = 42"
  "load32 arp_machine (rx_desc_at arp_machine 0 + 12) = 3"
  by (simp_all add: arp_machine_def ring_machine_def blank_def load32_def le32_def
        rx_desc_at_def ram_of_def sizeof_rx_desc_def)

lemma arp_machine_simps [simp]:
  "rx_count (dev arp_machine) = 256" "packet_count (dev arp_machine) = 0"
  "console arp_machine = []" "read_reg RDH arp_machine = 1" "read_reg RDT arp_machine = 255"
  by (simp_all add: arp_machine_def ring_machine_def blank_def read_reg_def RDH_def RDT_def)

lemma arp_frame_wire:
  "arp_frame = eth_hdr_bytes arp_request_hdr @ arp_packet_bytes arp_request"
  by (simp add: arp_frame_def eth_hdr_bytes_def arp_packet_bytes_def be16_bytes_def
        arp_request_hdr_def arp_request_def)

lemma arp_machine_frame:
  "load_bytes arp_machine 0x8DFFD000 14 = eth_hdr_bytes arp_request_hdr"
  "load_bytes arp_machine (0x8DFFD000 + 14) 28 = arp_packet_bytes arp_request"
  by (simp_all add: load_bytes_def arp_machine_def arp_frame_def upt_rec eth_hdr_bytes_def
        arp_packet_bytes_def be16_bytes_def arp_request_hdr_def arp_request_def)

theorem read_packets_header_dispatch_witness:
  "rx_count (dev arp_machine) - 1 \<noteq> 0
   \<and> bit (load32 arp_machine (rx_desc_at arp_machine 0 + 12)) 1
   \<and> eth_hdr_wf arp_request_hdr \<and> arp_packet_wf arp_request
   \<and> ether_type arp_request_hdr = 0x0806
   \<and> load_bytes arp_machine (P2V xv6 (load32 arp_machine (rx_desc_at arp_machine 0))) 14
       = eth_hdr_bytes arp_request_hdr
   \<and> load_bytes arp_machine (P2V xv6 (load32 arp_machine (rx_desc_at arp_machine 0)) + 14) 28
       = arp_packet_bytes arp_request
   \<and> (case read_packets xv6 arp_machine of
         Inl e \<Rightarrow> False
       | Inr s' \<Rightarrow>
           console s' =
             [Log_packet_count 0, Log_buffer 0x8DFFD000, Log_packet_size 42,
              Log_end_of_packet 1, Log_text ''ETH_TYPE_ARP\<newline>'',
              Log_arp_packet arp_request, Log_eth_hdr arp_request_hdr,
              Log_text ''\<newline>\<newline>''])"
proof -
  have nz: "rx_count (dev arp_machine) - 1 \<noteq> 0" by simp
  have b: "P2V xv6 (load32 arp_machine (rx_desc_at arp_machine 0)) = 0x8DFFD000"
    by (simp add: arp_machine_desc P2V_def xv6_def)
  have f: "bit (load32 arp_machine (rx_desc_at arp_machine 0 + 12)) 1"
    by (simp add: arp_machine_desc bit_numeral_rec)
  have wf: "eth_hdr_wf arp_request_hdr" "arp_packet_wf arp_request"
    "ether_type arp_request_hdr = 0x0806"
    by (simp_all add: eth_hdr_wf_def arp_packet_wf_def arp_request_hdr_def arp_request_def)
  have e: "load_bytes arp_machine (P2V xv6 (load32 arp_machine (rx_desc_at arp_machine 0))) 14
       = eth_hdr_bytes arp_request_hdr"
    unfolding b by (rule arp_machine_frame)
  have a: "load_bytes arp_machine
             (P2V xv6 (load32 arp_machine (rx_desc_at arp_machine 0)) + 14) 28
       = arp_packet_bytes arp_request"
    unfolding b by (rule arp_machine_frame)
  note t = read_packets_header_dispatch [of arp_machine xv6, OF nz]
  have n: "read_packets_n 256 1 255 = 1" "read_packets_idx 256 (read_packets_i 256 255) 0 = 0"
    by (simp_all add: read_packets_n_def read_packets_idx_def read_packets_i_def)
  obtain s' where s': "read_packets xv6 arp_machine = Inr s'"
    and c: "console s' = descriptor_log xv6 arp_machine 0 0"
    using t [THEN conjunct1] by (auto simp add: n)
  have "descriptor_log xv6 arp_machine 0 0 =
          [Log_packet_count 0, Log_buffer 0x8DFFD000, Log_packet_size 42, Log_end_of_packet 1]
          @ frame_log arp_request_hdr arp_request @ [Log_text ''\<newline>\<newline>'']"
    using t [THEN conjunct2, rule_format, of 0 arp_request_hdr arp_request 0] f wf e a
    by (simp add: arp_machine_desc P2V_def xv6_def)
  then have "console s' =
             [Log_packet_count 0, Log_buffer 0x8DFFD000, Log_packet_size 42,
              Log_end_of_packet 1, Log_text ''ETH_TYPE_ARP\<newline>'',
              Log_arp_packet arp_request, Log_eth_hdr arp_request_hdr,
              Log_text ''\<newline>\<newline>'']"
    using c wf(3) by (simp add: frame_log_def)
  then show ?thesis using nz f wf e a s' by simp
qed

section \<open>Receive initialization\<close>

lemma le32_split:
  "le32 (ucast v) (ucast (drop_bit 8 v)) (ucast (drop_bit 16 v)) (ucast (drop_bit 24 v)) = v"
  unfolding le32_def
  apply (rule bit_word_eqI)
  apply (auto simp add: bit_simps)
  subgoal for n by (cases "24 \<le> n") simp_all
  done

lemma load32_store32: "load32 (store32 a v s) a = v"
  by (simp add: load32_def store32_def le32_split)

lemma store32_fields [simp]:
  "dev (store32 a v s) = dev s" "mmio (store32 a v s) = mmio s"
  "mmio_writes (store32 a v s) = mmio_writes s" "kalloc_pages (store32 a v s) = kalloc_pages s"
  "console (store32 a v s) = console s" "rx_reads (store32 a v s) = rx_reads s"
  by (simp_all add: store32_def)

lemma memset_fields [simp]:
  "dev (memset a c n s) = dev s" "mmio (memset a c n s) = mmio s"
  "mmio_writes (memset a c n s) = mmio_writes s" "kalloc_pages (memset a c n s) = kalloc_pages s"
  "console (memset a c n s) = console s" "rx_reads (memset a c n s) = rx_reads s"
  by (simp_all add: memset_def)

lemma store_rx_desc_fields [simp]:
  "dev (store_rx_desc a w0 w1 w2 w3 s) = dev s" "mmio (store_rx_desc a w0 w1 w2 w3 s) = mmio s"
  "mmio_writes (store_rx_desc a w0 w1 w2 w3 s) = mmio_writes s"
  "kalloc_pages (store_rx_desc a w0 w1 w2 w3 s) = kalloc_pages s"
  "console (store_rx_desc a w0 w1 w2 w3 s) = console s"
  "rx_reads (store_rx_desc a w0 w1 w2 w3 s) = rx_reads s"
  by (simp_all add: store_rx_desc_def)

lemma kalloc_eq:
  "kalloc s = (case kalloc_pages s of [] \<Rightarrow> 0 | p # ps \<Rightarrow> p,
               s\<lparr>kalloc_pages := tl (kalloc_pages s)\<rparr>)"
  by (cases "kalloc_pages s") (simp_all add: kalloc_def)

text \<open>One round of the loop: the three ways it can end.\<close>

lemma init_rx_slot_null:
  assumes "rx_buf (dev s) = 0"
  shows "init_rx_slot pf i s = Inl (Page_fault (4 * i), s\<lparr>kalloc_pages := tl (kalloc_pages s)\<rparr>)"
  using assms by (simp add: init_rx_slot_def kalloc_eq Let_def rx_buf_slot_def)

lemma init_rx_slot_fail:
  assumes "rx_buf (dev s) \<noteq> 0" and "kalloc_pages s = [] \<or> hd (kalloc_pages s) = 0"
  shows "\<exists>s'. init_rx_slot pf i s = Inl (Panic ''failed to allocate buffer\<newline>'', s')
            \<and> dev s' = dev s \<and> mmio_writes s' = mmio_writes s"
  using assms
  by (cases "kalloc_pages s")
     (simp_all add: init_rx_slot_def kalloc_eq Let_def load32_store32 rx_buf_slot_def)

lemma init_rx_slot_ok:
  assumes "rx_buf (dev s) \<noteq> 0" and "kalloc_pages s = p # ps" and "p \<noteq> 0"
  shows "\<exists>s'. init_rx_slot pf i s = Inr s' \<and> dev s' = dev s \<and> mmio s' = mmio s
            \<and> mmio_writes s' = mmio_writes s \<and> kalloc_pages s' = ps"
  using assms
  by (simp add: init_rx_slot_def kalloc_eq Let_def load32_store32 rx_buf_slot_def)

lemma init_rx_slot_cases:
  obtains (null) "rx_buf (dev s) = 0"
      "init_rx_slot pf i s = Inl (Page_fault (4 * i), s\<lparr>kalloc_pages := tl (kalloc_pages s)\<rparr>)"
    | (fail) s' where "rx_buf (dev s) \<noteq> 0" "kalloc_pages s = [] \<or> hd (kalloc_pages s) = 0"
      "init_rx_slot pf i s = Inl (Panic ''failed to allocate buffer\<newline>'', s')"
      "dev s' = dev s" "mmio_writes s' = mmio_writes s"
    | (ok) s' p ps where "rx_buf (dev s) \<noteq> 0" "kalloc_pages s = p # ps" "p \<noteq> 0"
      "init_rx_slot pf i s = Inr s'" "dev s' = dev s" "mmio s' = mmio s"
      "mmio_writes s' = mmio_writes s" "kalloc_pages s' = ps"
proof (cases "rx_buf (dev s) = 0")
  case True
  then show ?thesis using null init_rx_slot_null by blast
next
  case nz: False
  show ?thesis
  proof (cases "kalloc_pages s = [] \<or> hd (kalloc_pages s) = 0")
    case True
    then show ?thesis using fail nz init_rx_slot_fail [OF nz True] by blast
  next
    case False
    then obtain p ps where pp: "kalloc_pages s = p # ps" and p0: "p \<noteq> 0"
      by (cases "kalloc_pages s") auto
    then show ?thesis using ok nz init_rx_slot_ok [OF nz pp p0] by blast
  qed
qed

lemma init_rx_slot_fields:
  assumes "init_rx_slot pf i s = Inr s'"
  shows "dev s' = dev s \<and> mmio s' = mmio s \<and> mmio_writes s' = mmio_writes s
           \<and> kalloc_pages s' = tl (kalloc_pages s)"
  using assms by (cases rule: init_rx_slot_cases [of s pf i]) simp_all

lemma init_rx_slot_halt_fields:
  assumes "init_rx_slot pf i s = Inl (f, s')"
  shows "dev s' = dev s \<and> mmio_writes s' = mmio_writes s"
  using assms by (cases rule: init_rx_slot_cases [of s pf i]) auto

lemma init_rx_loop_fields:
  "init_rx_loop pf i s = Inr s' \<Longrightarrow>
     dev s' = dev s \<and> mmio s' = mmio s \<and> mmio_writes s' = mmio_writes s"
proof (induction pf i s rule: init_rx_loop.induct)
  case (1 pf i s)
  show ?case
  proof (cases "i < rx_count (dev s)")
    case True
    then obtain s1 where s1: "init_rx_slot pf i s = Inr s1"
      and r: "init_rx_loop pf (i + 1) s1 = Inr s'"
      using "1.prems" by (auto simp add: init_rx_loop.simps [of pf i s] split: sum.splits)
    show ?thesis using "1.IH" [OF True s1 r] init_rx_slot_fields [OF s1] by simp
  next
    case False
    then show ?thesis using "1.prems" by (simp add: init_rx_loop.simps [of pf i s])
  qed
qed

text \<open>However the loop halts, it has stored to no register.\<close>

lemma init_rx_loop_halt_fields:
  "init_rx_loop pf i s = Inl (f, s') \<Longrightarrow>
     dev s' = dev s \<and> mmio_writes s' = mmio_writes s"
proof (induction pf i s rule: init_rx_loop.induct)
  case (1 pf i s)
  show ?case
  proof (cases "i < rx_count (dev s)")
    case True
    show ?thesis
    proof (cases "init_rx_slot pf i s")
      case (Inl h)
      then have "init_rx_slot pf i s = Inl (f, s')"
        using "1.prems" True by (simp add: init_rx_loop.simps [of pf i s])
      then show ?thesis by (rule init_rx_slot_halt_fields)
    next
      case (Inr s1)
      then have r: "init_rx_loop pf (i + 1) s1 = Inl (f, s')"
        using "1.prems" True by (simp add: init_rx_loop.simps [of pf i s])
      show ?thesis using "1.IH" [OF True Inr r] init_rx_slot_fields [OF Inr] by simp
    qed
  next
    case False
    then show ?thesis using "1.prems" by (simp add: init_rx_loop.simps [of pf i s])
  qed
qed

lemma init_rx_loop_null:
  assumes "rx_buf (dev s) = 0" and "i < rx_count (dev s)"
  shows "init_rx_loop pf i s =
           Inl (Page_fault (4 * i), s\<lparr>kalloc_pages := tl (kalloc_pages s)\<rparr>)"
  using assms by (simp add: init_rx_loop.simps [of pf i s] init_rx_slot_null)

lemma init_rx_loop_ok:
  "rx_buf (dev s) \<noteq> 0 \<Longrightarrow> i \<le> rx_count (dev s) \<Longrightarrow>
   unat (rx_count (dev s)) - unat i \<le> length (kalloc_pages s) \<Longrightarrow>
   0 \<notin> set (take (unat (rx_count (dev s)) - unat i) (kalloc_pages s)) \<Longrightarrow>
   \<exists>s'. init_rx_loop pf i s = Inr s'"
proof (induction pf i s rule: init_rx_loop.induct)
  case (1 pf i s)
  show ?case
  proof (cases "i < rx_count (dev s)")
    case True
    have lt: "unat i < unat (rx_count (dev s))" using True by (simp add: word_less_nat_alt)
    have suc: "unat (i + 1) = Suc (unat i)" using True by (rule unat_word_succ)
    obtain k where k: "unat (rx_count (dev s)) - unat i = Suc k" using lt
      by (metis Suc_diff_Suc)
    obtain p ps where pp: "kalloc_pages s = p # ps"
      using "1.prems"(3) k by (cases "kalloc_pages s") auto
    have p0: "p \<noteq> 0" using "1.prems"(4) k pp by auto
    obtain s1 where s1: "init_rx_slot pf i s = Inr s1" and d: "dev s1 = dev s"
      and kp: "kalloc_pages s1 = ps"
      using init_rx_slot_ok [OF "1.prems"(1) pp p0] by blast
    have k': "unat (rx_count (dev s1)) - unat (i + 1) = k" using k suc d by simp
    have "\<exists>s'. init_rx_loop pf (i + 1) s1 = Inr s'"
    proof (rule "1.IH" [OF True s1])
      show "rx_buf (dev s1) \<noteq> 0" using "1.prems"(1) d by simp
      show "i + 1 \<le> rx_count (dev s1)" using True d by (simp add: inc_le)
      show "unat (rx_count (dev s1)) - unat (i + 1) \<le> length (kalloc_pages s1)"
        using "1.prems"(3) k k' pp kp by simp
      show "0 \<notin> set (take (unat (rx_count (dev s1)) - unat (i + 1)) (kalloc_pages s1))"
        using "1.prems"(4) k k' pp kp by simp
    qed
    then show ?thesis using True s1 by (simp add: init_rx_loop.simps [of pf i s])
  next
    case False
    then show ?thesis by (simp add: init_rx_loop.simps [of pf i s])
  qed
qed

lemma init_rx_loop_fail:
  "rx_buf (dev s) \<noteq> 0 \<Longrightarrow> i \<le> rx_count (dev s) \<Longrightarrow>
   length (kalloc_pages s) < unat (rx_count (dev s)) - unat i
     \<or> 0 \<in> set (take (unat (rx_count (dev s)) - unat i) (kalloc_pages s)) \<Longrightarrow>
   \<exists>s'. init_rx_loop pf i s = Inl (Panic ''failed to allocate buffer\<newline>'', s')"
proof (induction pf i s rule: init_rx_loop.induct)
  case (1 pf i s)
  show ?case
  proof (cases "i < rx_count (dev s)")
    case True
    have lt: "unat i < unat (rx_count (dev s))" using True by (simp add: word_less_nat_alt)
    have suc: "unat (i + 1) = Suc (unat i)" using True by (rule unat_word_succ)
    obtain k where k: "unat (rx_count (dev s)) - unat i = Suc k" using lt
      by (metis Suc_diff_Suc)
    show ?thesis
    proof (cases "kalloc_pages s = [] \<or> hd (kalloc_pages s) = 0")
      case True
      then obtain s' where
        "init_rx_slot pf i s = Inl (Panic ''failed to allocate buffer\<newline>'', s')"
        using init_rx_slot_fail [OF "1.prems"(1) True] by blast
      then show ?thesis using \<open>i < rx_count (dev s)\<close>
        by (simp add: init_rx_loop.simps [of pf i s])
    next
      case False
      then obtain p ps where pp: "kalloc_pages s = p # ps" and p0: "p \<noteq> 0"
        by (cases "kalloc_pages s") auto
      obtain s1 where s1: "init_rx_slot pf i s = Inr s1" and d: "dev s1 = dev s"
        and kp: "kalloc_pages s1 = ps"
        using init_rx_slot_ok [OF "1.prems"(1) pp p0] by blast
      have k': "unat (rx_count (dev s1)) - unat (i + 1) = k" using k suc d by simp
      have "\<exists>s'. init_rx_loop pf (i + 1) s1 =
               Inl (Panic ''failed to allocate buffer\<newline>'', s')"
      proof (rule "1.IH" [OF True s1])
        show "rx_buf (dev s1) \<noteq> 0" using "1.prems"(1) d by simp
        show "i + 1 \<le> rx_count (dev s1)" using True d by (simp add: inc_le)
        show "length (kalloc_pages s1) < unat (rx_count (dev s1)) - unat (i + 1)
                \<or> 0 \<in> set (take (unat (rx_count (dev s1)) - unat (i + 1)) (kalloc_pages s1))"
          using "1.prems"(3) k k' pp kp p0 by auto
      qed
      then show ?thesis using True s1 by (simp add: init_rx_loop.simps [of pf i s])
    qed
  next
    case False
    then have "i = rx_count (dev s)" using "1.prems"(2) by simp
    then show ?thesis using "1.prems"(3) by simp
  qed
qed

text \<open>\<^verbatim>\<open>init_rx\<close> around its loop.\<close>

lemma init_rx_ring_page_fail:
  assumes "kalloc_pages s = [] \<or> hd (kalloc_pages s) = 0"
  shows "\<exists>s'. init_rx pf s =
             Inl (Panic ''failed to allocate recieve descriptor buffer\<newline>'', s')
           \<and> mmio_writes s' =
               mmio_writes s @
                 [(mmio_base (dev s) + RAL,
                   le32 (mac (dev s) 0) (mac (dev s) 1) (mac (dev s) 2) (mac (dev s) 3)),
                  (mmio_base (dev s) + RAH, le32 (mac (dev s) 4) (mac (dev s) 5) 0 0)]"
  using assms by (cases "kalloc_pages s") (simp_all add: init_rx_def Let_def kalloc_eq)

lemma init_rx_unfold:
  assumes "(case kalloc_pages s of [] \<Rightarrow> 0 | p # ps \<Rightarrow> p) \<noteq> 0"
  shows "init_rx pf s =
     (case init_rx_loop pf 0 (init_rx_pre pf s) of
        Inl e \<Rightarrow> Inl e
      | Inr s14 \<Rightarrow>
          Inr (write_reg RCTL rctl_reg (write_reg RDT (rx_count (dev s14) - 1) s14)))"
  using assms by (simp add: init_rx_def init_rx_pre_def Let_def kalloc_eq)

lemma init_rx_pre_fields:
  "rx_count (dev (init_rx_pre pf s)) = PGSIZE pf div sizeof_rx_desc"
  "mmio_base (dev (init_rx_pre pf s)) = mmio_base (dev s)"
  "kalloc_pages (init_rx_pre pf s) = tl (tl (kalloc_pages s))"
  "rx_buf (dev (init_rx_pre pf s)) = (case tl (kalloc_pages s) of [] \<Rightarrow> 0 | q # qs \<Rightarrow> q)"
  "mmio_writes (init_rx_pre pf s) =
     mmio_writes s @
       [(mmio_base (dev s) + RAL, le32 (mac (dev s) 0) (mac (dev s) 1) (mac (dev s) 2) (mac (dev s) 3)),
        (mmio_base (dev s) + RAH, le32 (mac (dev s) 4) (mac (dev s) 5) 0 0),
        (mmio_base (dev s) + RDBAL, V2P pf (case kalloc_pages s of [] \<Rightarrow> 0 | p # ps \<Rightarrow> p)),
        (mmio_base (dev s) + RDBAH, 0),
        (mmio_base (dev s) + RDLEN, PGSIZE pf),
        (mmio_base (dev s) + RDH, 0),
        (mmio_base (dev s) + RDT, 0)]"
  "mmio (init_rx_pre pf s) (mmio_base (dev s) + RDH) = 0"
  by (simp_all add: init_rx_pre_def Let_def kalloc_eq RDH_def RDT_def)

lemma init_rx_Inr:
  assumes "init_rx pf s = Inr s'"
  shows "rx_count (dev s') = PGSIZE pf div sizeof_rx_desc"
    and "mmio_base (dev s') = mmio_base (dev s)"
    and "\<exists>ws. mmio_writes s' =
           ws @ [(mmio_base (dev s) + RDT, rx_count (dev s') - 1),
                 (mmio_base (dev s) + RCTL, rctl_reg)]"
    and "read_reg RDT s' = rx_count (dev s') - 1"
    and "read_reg RDH s' = 0"
proof -
  have nz: "(case kalloc_pages s of [] \<Rightarrow> 0 | p # ps \<Rightarrow> p) \<noteq> 0"
  proof
    assume "(case kalloc_pages s of [] \<Rightarrow> 0 | p # ps \<Rightarrow> p) = 0"
    then have "kalloc_pages s = [] \<or> hd (kalloc_pages s) = 0"
      by (cases "kalloc_pages s") simp_all
    then show False using init_rx_ring_page_fail [of s pf] assms by auto
  qed
  obtain s14 where l: "init_rx_loop pf 0 (init_rx_pre pf s) = Inr s14"
    and e: "s' = write_reg RCTL rctl_reg (write_reg RDT (rx_count (dev s14) - 1) s14)"
    using assms by (auto simp add: init_rx_unfold [OF nz] split: sum.splits)
  have f: "dev s14 = dev (init_rx_pre pf s)" "mmio s14 = mmio (init_rx_pre pf s)"
    "mmio_writes s14 = mmio_writes (init_rx_pre pf s)"
    using init_rx_loop_fields [OF l] by simp_all
  show "rx_count (dev s') = PGSIZE pf div sizeof_rx_desc"
    by (simp add: e f init_rx_pre_fields)
  show "mmio_base (dev s') = mmio_base (dev s)"
    by (simp add: e f init_rx_pre_fields)
  show "\<exists>ws. mmio_writes s' =
           ws @ [(mmio_base (dev s) + RDT, rx_count (dev s') - 1),
                 (mmio_base (dev s) + RCTL, rctl_reg)]"
    by (simp add: e f init_rx_pre_fields)
  show "read_reg RDT s' = rx_count (dev s') - 1"
    by (simp add: e f init_rx_pre_fields read_reg_def RDT_def RCTL_def)
  show "read_reg RDH s' = 0"
    by (simp add: e f init_rx_pre_fields read_reg_def RDT_def RCTL_def RDH_def
          init_rx_pre_fields(6) [unfolded RDH_def])
qed

lemma last_write_append:
  "last_write a (ws @ [(a, v), (b, w)]) = Some (if b = a then w else v)"
  by (simp add: last_write_def)

lemma hw_unavailable_init:
  assumes "0 < cap"
  shows "hw_unavailable_slots cap 0 (cap - 1) = [cap - 1]"
proof -
  have "cap - 1 + cap - 0 = (cap - 1) + cap" by simp
  then have "(cap - 1 + cap - 0) mod cap = (cap - 1) mod cap" by (simp only: mod_add_self2)
  then have m: "(cap - 1 + cap - 0) mod cap = cap - 1" using assms by simp
  have a: "hw_available cap 0 (cap - 1) k = (k < cap - 1)" if "k < cap" for k
    unfolding hw_available_def m using that by simp
  have "[0..<cap] = [0..<cap - 1] @ [cap - 1]"
    using assms by (metis Suc_diff_1 upt_Suc_append zero_le)
  moreover have "filter (\<lambda>k. \<not> hw_available cap 0 (cap - 1) k) [0..<cap - 1] = []"
    using a by (auto simp add: filter_empty_conv)
  moreover have "\<not> hw_available cap 0 (cap - 1) (cap - 1)" using a [of "cap - 1"] assms by simp
  ultimately show ?thesis by (simp add: hw_unavailable_slots_def)
qed

text \<open>
  C6: when \<^verbatim>\<open>init_rx\<close> completes, the ring capacity is \<^verbatim>\<open>PGSIZE\<close> divided by the
  descriptor size, the last value written to the tail register is \<open>capacity - 1\<close>, the
  head register is 0, and (for a page that holds at least one descriptor) exactly one
  slot, the last, is unavailable to hardware.
\<close>

theorem init_rx_ring_capacity:
  assumes "init_rx pf s = Inr s'"
  shows "rx_count (dev s') = PGSIZE pf div sizeof_rx_desc
     \<and> last_write (mmio_base (dev s') + RDT) (mmio_writes s') = Some (rx_count (dev s') - 1)
     \<and> read_reg RDT s' = rx_count (dev s') - 1
     \<and> read_reg RDH s' = 0
     \<and> (sizeof_rx_desc \<le> PGSIZE pf \<longrightarrow>
          hw_unavailable_slots (unat (rx_count (dev s'))) (unat (read_reg RDH s'))
              (unat (read_reg RDT s'))
            = [unat (rx_count (dev s')) - 1])"
proof -
  note r = init_rx_Inr [OF assms]
  obtain ws where ws: "mmio_writes s' =
           ws @ [(mmio_base (dev s) + RDT, rx_count (dev s') - 1),
                 (mmio_base (dev s) + RCTL, rctl_reg)]"
    using r(3) by blast
  have lw: "last_write (mmio_base (dev s') + RDT) (mmio_writes s') = Some (rx_count (dev s') - 1)"
    by (simp add: ws r(2) last_write_append RDT_def RCTL_def)
  have hw: "hw_unavailable_slots (unat (rx_count (dev s'))) (unat (read_reg RDH s'))
              (unat (read_reg RDT s')) = [unat (rx_count (dev s')) - 1]"
    if "sizeof_rx_desc \<le> PGSIZE pf"
  proof -
    have "16 \<le> unat (PGSIZE pf)" using that by (simp add: word_le_nat_alt sizeof_rx_desc_def)
    then have "0 < unat (PGSIZE pf) div 16" by simp
    then have p: "0 < unat (rx_count (dev s'))"
      by (simp add: r(1) unat_div sizeof_rx_desc_def)
    then have "rx_count (dev s') \<noteq> 0" by auto
    then have "unat (rx_count (dev s') - 1) = unat (rx_count (dev s')) - 1"
      by (rule unat_minus_one)
    then show ?thesis using hw_unavailable_init [OF p] by (simp add: r(4) r(5))
  qed
  show ?thesis using r(1) lw r(4) r(5) hw by blast
qed

lemma init_rx_ok:
  assumes pages: "kalloc_pages s = p # q # bufs" and p: "p \<noteq> 0" and q: "q \<noteq> 0"
    and len: "unat (PGSIZE pf div sizeof_rx_desc) \<le> length bufs"
    and nz: "0 \<notin> set (take (unat (PGSIZE pf div sizeof_rx_desc)) bufs)"
  shows "\<exists>s'. init_rx pf s = Inr s' \<and> rx_buf (dev s') = q"
proof -
  have "\<exists>s14. init_rx_loop pf 0 (init_rx_pre pf s) = Inr s14"
    using len nz q by (intro init_rx_loop_ok) (simp_all add: init_rx_pre_fields pages)
  then obtain s14 where l: "init_rx_loop pf 0 (init_rx_pre pf s) = Inr s14" by blast
  have "dev s14 = dev (init_rx_pre pf s)" using init_rx_loop_fields [OF l] by simp
  then have "rx_buf (dev s14) = q" by (simp add: init_rx_pre_fields pages)
  then show ?thesis using l p by (simp add: init_rx_unfold pages)
qed

lemma init_rx_data_page_fail:
  assumes pages: "kalloc_pages s = p # q # bufs" and p: "p \<noteq> 0" and q: "q \<noteq> 0"
    and bad: "length bufs < unat (PGSIZE pf div sizeof_rx_desc)
                \<or> 0 \<in> set (take (unat (PGSIZE pf div sizeof_rx_desc)) bufs)"
  shows "\<exists>s'. init_rx pf s = Inl (Panic ''failed to allocate buffer\<newline>'', s')"
proof -
  have "\<exists>s'. init_rx_loop pf 0 (init_rx_pre pf s) =
               Inl (Panic ''failed to allocate buffer\<newline>'', s')"
    using bad q by (intro init_rx_loop_fail) (simp_all add: init_rx_pre_fields pages)
  then show ?thesis using p by (auto simp add: init_rx_unfold pages)
qed

text \<open>
  The list page: when the \<^verbatim>\<open>kalloc\<close> of line 209 returns 0, no test catches it, and
  the first round of the loop traps at the store of line 211, at address 0.
\<close>

lemma init_rx_list_page_null:
  assumes pages: "kalloc_pages s = p # rest" and p: "p \<noteq> 0"
    and rest: "rest = [] \<or> hd rest = 0"
    and cap: "0 < PGSIZE pf div sizeof_rx_desc"
  shows "init_rx pf s =
           Inl (Page_fault 0,
                (init_rx_pre pf s)\<lparr>kalloc_pages := tl (kalloc_pages (init_rx_pre pf s))\<rparr>)"
proof -
  have "rx_buf (dev (init_rx_pre pf s)) = 0"
    using rest by (cases rest) (simp_all add: init_rx_pre_fields pages)
  moreover have "0 < rx_count (dev (init_rx_pre pf s))"
    using cap by (simp add: init_rx_pre_fields)
  ultimately have "init_rx_loop pf 0 (init_rx_pre pf s) =
           Inl (Page_fault (4 * 0),
                (init_rx_pre pf s)\<lparr>kalloc_pages := tl (kalloc_pages (init_rx_pre pf s))\<rparr>)"
    by (rule init_rx_loop_null)
  then show ?thesis using p by (simp add: init_rx_unfold pages)
qed

text \<open>
  However \<^verbatim>\<open>init_rx\<close> halts, the machine it leaves has had no store to the receive-control
  register.
\<close>

lemma init_rx_halt_no_rctl:
  assumes "init_rx pf s = Inl (f, s')"
  shows "\<exists>ws. mmio_writes s' = mmio_writes s @ ws \<and> mmio_base (dev s) + RCTL \<notin> fst ` set ws"
proof (cases "kalloc_pages s = [] \<or> hd (kalloc_pages s) = 0")
  case True
  then show ?thesis
    using init_rx_ring_page_fail [OF True, of pf] assms
    by (auto simp add: RCTL_def RAL_def RAH_def)
next
  case False
  then have nz: "(case kalloc_pages s of [] \<Rightarrow> 0 | p # ps \<Rightarrow> p) \<noteq> 0"
    by (cases "kalloc_pages s") simp_all
  have "init_rx_loop pf 0 (init_rx_pre pf s) = Inl (f, s')"
    using assms by (simp add: init_rx_unfold [OF nz] split: sum.splits)
  then have "mmio_writes s' = mmio_writes (init_rx_pre pf s)"
    using init_rx_loop_halt_fields by blast
  then show ?thesis
    by (simp add: init_rx_pre_fields RCTL_def RAL_def RAH_def RDBAL_def RDBAH_def RDLEN_def
          RDH_def RDT_def)
qed

lemma last_write_none:
  "a \<notin> fst ` set ws \<Longrightarrow> last_write a ws = None"
  by (simp add: last_write_def map_of_eq_None_iff)

lemma data_pages_facts:
  "length data_pages = 256" "0 \<notin> set data_pages"
  by (auto simp add: data_pages_def or_eq_0_iff)

lemma boot_machine_simps [simp]:
  "kalloc_pages (boot_machine pages) = pages"
  "mmio_base (dev (boot_machine pages)) = 0xFEBC0000"
  "mmio_writes (boot_machine pages) = []"
  by (simp_all add: boot_machine_def blank_def)

lemma xv6_ring: "unat (PGSIZE xv6 div sizeof_rx_desc) = 256"
  by (simp add: xv6_def sizeof_rx_desc_def)

theorem init_rx_ring_capacity_witness:
  "(case init_rx xv6 (boot_machine (0x8DFFF000 # 0x8DFFE000 # data_pages)) of
      Inl e \<Rightarrow> False
    | Inr s' \<Rightarrow>
        rx_count (dev s') = 256
        \<and> last_write (0xFEBC0000 + RDT) (mmio_writes s') = Some 255
        \<and> read_reg RDT s' = 255 \<and> read_reg RDH s' = 0)
   \<and> sizeof_rx_desc \<le> PGSIZE xv6
   \<and> hw_unavailable_slots 256 0 255 = [255]"
proof -
  let ?m = "boot_machine (0x8DFFF000 # 0x8DFFE000 # data_pages)"
  obtain s' where s': "init_rx xv6 ?m = Inr s'"
    using init_rx_ok [of ?m "0x8DFFF000" "0x8DFFE000" data_pages xv6]
    by (auto simp add: xv6_ring data_pages_facts)
  have b: "mmio_base (dev s') = 0xFEBC0000" using init_rx_Inr(2) [OF s'] by simp
  have c: "rx_count (dev s') = 256"
    using init_rx_Inr(1) [OF s'] by (simp add: xv6_def sizeof_rx_desc_def)
  have le: "sizeof_rx_desc \<le> PGSIZE xv6" by (simp add: xv6_def sizeof_rx_desc_def)
  show ?thesis
    using init_rx_ring_capacity [OF s'] le by (auto simp add: s' b c)
qed

text \<open>
  C4 on xv6 with one free page: the ring page is allocated, the allocation of the buffer
  list returns 0, and nothing tests it. \<^verbatim>\<open>init_rx\<close> does not halt with a diagnostic as it
  does for the ring page and for a data page; it goes on to the store of line 211 and
  traps there, at address 0, with \<^verbatim>\<open>e1000.rx_buf\<close> null. The same happens when the later
  allocations would succeed. In all four runs the receive-control register has not been
  stored to when the machine halts.
\<close>

theorem init_rx_list_page_failing:
  "(case init_rx xv6 (boot_machine [0x8DFFF000]) of
      Inl (f, s') \<Rightarrow>
        f = Page_fault 0 \<and> rx_buf (dev s') = 0
        \<and> last_write (0xFEBC0000 + RCTL) (mmio_writes s') = None
    | Inr s' \<Rightarrow> False)
   \<and> (case init_rx xv6 (boot_machine (0x8DFFF000 # 0 # data_pages)) of
      Inl (f, s') \<Rightarrow>
        f = Page_fault 0 \<and> rx_buf (dev s') = 0
        \<and> last_write (0xFEBC0000 + RCTL) (mmio_writes s') = None
    | Inr s' \<Rightarrow> False)
   \<and> (case init_rx xv6 (boot_machine []) of
      Inl (f, s') \<Rightarrow>
        f = Panic ''failed to allocate recieve descriptor buffer\<newline>''
        \<and> last_write (0xFEBC0000 + RCTL) (mmio_writes s') = None
    | Inr s' \<Rightarrow> False)
   \<and> (case init_rx xv6 (boot_machine (0x8DFFF000 # 0x8DFFE000 # take 100 data_pages)) of
      Inl (f, s') \<Rightarrow>
        f = Panic ''failed to allocate buffer\<newline>''
        \<and> last_write (0xFEBC0000 + RCTL) (mmio_writes s') = None
    | Inr s' \<Rightarrow> False)"
proof -
  have cap: "0 < PGSIZE xv6 div sizeof_rx_desc" by (simp add: xv6_def sizeof_rx_desc_def)
  have none: "last_write (0xFEBC0000 + RCTL) (mmio_writes s') = None"
    if "init_rx xv6 (boot_machine pages) = Inl (f, s')" for pages f s'
    using init_rx_halt_no_rctl [OF that] by (auto simp add: last_write_none)
  let ?m1 = "boot_machine [0x8DFFF000]"
  let ?m2 = "boot_machine (0x8DFFF000 # 0 # data_pages)"
  let ?m3 = "boot_machine []"
  let ?m4 = "boot_machine (0x8DFFF000 # 0x8DFFE000 # take 100 data_pages)"
  have r1: "init_rx xv6 ?m1 =
           Inl (Page_fault 0,
                (init_rx_pre xv6 ?m1)\<lparr>kalloc_pages := tl (kalloc_pages (init_rx_pre xv6 ?m1))\<rparr>)"
    by (rule init_rx_list_page_null [of _ "0x8DFFF000" "[]"]) (simp_all add: cap)
  have r2: "init_rx xv6 ?m2 =
           Inl (Page_fault 0,
                (init_rx_pre xv6 ?m2)\<lparr>kalloc_pages := tl (kalloc_pages (init_rx_pre xv6 ?m2))\<rparr>)"
    by (rule init_rx_list_page_null [of _ "0x8DFFF000" "0 # data_pages"]) (simp_all add: cap)
  obtain s3 where r3: "init_rx xv6 ?m3 =
      Inl (Panic ''failed to allocate recieve descriptor buffer\<newline>'', s3)"
    using init_rx_ring_page_fail [of ?m3 xv6] by auto
  obtain s4 where r4: "init_rx xv6 ?m4 = Inl (Panic ''failed to allocate buffer\<newline>'', s4)"
    using init_rx_data_page_fail [of ?m4 "0x8DFFF000" "0x8DFFE000" "take 100 data_pages" xv6]
    by (auto simp add: xv6_ring data_pages_facts)
  have c1: "case init_rx xv6 ?m1 of
      Inl (f, s') \<Rightarrow>
        f = Page_fault 0 \<and> rx_buf (dev s') = 0
        \<and> last_write (0xFEBC0000 + RCTL) (mmio_writes s') = None
    | Inr s' \<Rightarrow> False"
    using none [OF r1] by (simp add: r1 init_rx_pre_fields)
  have c2: "case init_rx xv6 ?m2 of
      Inl (f, s') \<Rightarrow>
        f = Page_fault 0 \<and> rx_buf (dev s') = 0
        \<and> last_write (0xFEBC0000 + RCTL) (mmio_writes s') = None
    | Inr s' \<Rightarrow> False"
    using none [OF r2] by (simp add: r2 init_rx_pre_fields)
  have c3: "case init_rx xv6 ?m3 of
      Inl (f, s') \<Rightarrow>
        f = Panic ''failed to allocate recieve descriptor buffer\<newline>''
        \<and> last_write (0xFEBC0000 + RCTL) (mmio_writes s') = None
    | Inr s' \<Rightarrow> False"
    using none [OF r3] by (simp add: r3)
  have c4: "case init_rx xv6 ?m4 of
      Inl (f, s') \<Rightarrow>
        f = Panic ''failed to allocate buffer\<newline>''
        \<and> last_write (0xFEBC0000 + RCTL) (mmio_writes s') = None
    | Inr s' \<Rightarrow> False"
    using none [OF r4] by (simp add: r4)
  show ?thesis by (intro conjI c1 c2 c3 c4)
qed

section \<open>Device discovery\<close>

lemma outdw_addr [simp]: "outdw PCI_CONFIG_ADDR v s = s\<lparr>pci_addr := v\<rparr>"
  by (simp add: outdw_def)

lemma inb_data [simp]: "inb PCI_CONFIG_DATA s = pci_cfg s (pci_addr s)"
  by (simp add: inb_def)

lemma cfg_gather_two:
  "cfg_gather addr lo (lo + 1) 1 (0 :: ushort) s =
     (push_bit 8 (ucast (pci_cfg s (addr OR word_of_int (lo + 1))))
        OR ucast (pci_cfg s (addr OR word_of_int lo)),
      s\<lparr>pci_addr := addr OR word_of_int lo\<rparr>)"
  apply (subst cfg_gather.simps)
  apply (subst cfg_gather.simps)
  apply (subst cfg_gather.simps)
  apply (simp add: Let_def)
  done

lemma slot_matches_pci_addr [simp]:
  "slot_matches (s\<lparr>pci_addr := a\<rparr>) d = slot_matches s d"
  by (simp add: slot_matches_def slot_vendor_id_def slot_device_id_def cfg_byte_def)

lemma find_target_dev_step:
  assumes "d < 4"
  shows "find_target_dev d s =
           (if slot_matches s d
            then (d, s\<lparr>pci_addr := (0x80000000 OR push_bit 11 (word_of_int d)) OR 2\<rparr>)
            else find_target_dev (d + 1)
                   (s\<lparr>pci_addr := (0x80000000 OR push_bit 11 (word_of_int d)) OR 2\<rparr>))"
  using assms cfg_gather_two [of _ 0] cfg_gather_two [of _ 2]
  by (subst find_target_dev.simps)
     (simp add: Let_def slot_matches_def slot_vendor_id_def slot_device_id_def
        cfg_byte_def VENDOR_ID_def DEVICE_ID_def)

lemma find_target_dev_end: "find_target_dev 4 s = (- 1, s)"
  by (subst find_target_dev.simps) simp

lemma find_target_dev_0:
  "find_target_dev 0 s =
     (if slot_matches s 0 then (0, s\<lparr>pci_addr := 0x80000002\<rparr>)
      else if slot_matches s 1 then (1, s\<lparr>pci_addr := 0x80000802\<rparr>)
      else if slot_matches s 2 then (2, s\<lparr>pci_addr := 0x80001002\<rparr>)
      else if slot_matches s 3 then (3, s\<lparr>pci_addr := 0x80001802\<rparr>)
      else (- 1, s\<lparr>pci_addr := 0x80001802\<rparr>))"
  by (simp add: find_target_dev_step [of 0] find_target_dev_step [of 1]
        find_target_dev_step [of 2] find_target_dev_step [of 3] find_target_dev_end)

text \<open>
  C8: the probe of \<^verbatim>\<open>e1000init\<close> yields the first of the slots 0, 1, 2, 3 whose vendor
  identifier is \<open>0x8086\<close> and device identifier \<open>0x100E\<close>, and -1 when none of them
  matches; in that case \<^verbatim>\<open>e1000init\<close> returns with the machine as it was but for the
  configuration address port, which holds the last address probed: the driver state,
  memory, the card's registers and the configuration data port are untouched.
\<close>

theorem e1000init_discovery:
  "fst (find_target_dev 0 s) =
     (case List.find (slot_matches s) [0, 1, 2, 3] of None \<Rightarrow> - 1 | Some d \<Rightarrow> d)
   \<and> (List.find (slot_matches s) [0, 1, 2, 3] = None \<longrightarrow>
        e1000init pf s = Some (Inr (s\<lparr>pci_addr := 0x80001802\<rparr>)))"
  by (simp add: find_target_dev_0 e1000init_def)

lemma pci_machine_matches:
  "\<not> slot_matches pci_machine 0" "\<not> slot_matches pci_machine 1"
  "slot_matches pci_machine 2"
  "\<not> slot_matches blank 0" "\<not> slot_matches blank 1" "\<not> slot_matches blank 2" 
  "\<not> slot_matches blank 3"
  by (simp_all add: slot_matches_def slot_vendor_id_def slot_device_id_def cfg_byte_def
        pci_machine_def blank_def)

theorem e1000init_discovery_witness:
  "List.find (slot_matches blank) [0, 1, 2, 3] = None
   \<and> fst (find_target_dev 0 blank) = - 1
   \<and> e1000init xv6 blank = Some (Inr (blank\<lparr>pci_addr := 0x80001802\<rparr>))
   \<and> List.find (slot_matches pci_machine) [0, 1, 2, 3] = Some 2
   \<and> fst (find_target_dev 0 pci_machine) = 2"
  using e1000init_discovery [of blank xv6] e1000init_discovery [of pci_machine xv6]
  by (simp add: pci_machine_matches)

section \<open>Identity retrieval\<close>

lemma done_bit: "((r :: uint) AND EEPROM_DONE = 0) = (\<not> bit r 4)"
  using and_exp_eq_0_iff_not_bit [of r 4] by (simp add: EEPROM_DONE_def)

lemma eerd_wait_step:
  "\<not> bit result 4 \<Longrightarrow>
   eerd_wait result s = eerd_wait (eerd_in s (eerd_pos s)) (s\<lparr>eerd_pos := Suc (eerd_pos s)\<rparr>)"
  by (subst eerd_wait.simps) (simp add: done_bit eerd_load_def)

lemma eerd_wait_stop: "bit result 4 \<Longrightarrow> eerd_wait result s = Some s"
  by (subst eerd_wait.simps) (simp add: done_bit)

lemma eerd_wait_first_done:
  "\<not> bit result 4 \<Longrightarrow> first_done s (eerd_pos s) k \<Longrightarrow>
   eerd_wait result s = Some (s\<lparr>eerd_pos := Suc k\<rparr>)"
proof (induction "k - eerd_pos s" arbitrary: s result)
  case 0
  then have e: "eerd_pos s = k" by (simp add: first_done_def)
  have "bit (eerd_in s k) 4" using "0.prems" by (simp add: first_done_def)
  then show ?case
    using "0.prems"(1) by (simp add: eerd_wait_step e eerd_wait_stop)
next
  case (Suc n)
  let ?s = "s\<lparr>eerd_pos := Suc (eerd_pos s)\<rparr>"
  have lt: "eerd_pos s < k" using Suc.hyps(2) by simp
  then have "[eerd_pos s..<k] = eerd_pos s # [Suc (eerd_pos s)..<k]" by (rule upt_conv_Cons)
  then have nb: "\<not> bit (eerd_in s (eerd_pos s)) 4"
    and fd: "first_done ?s (eerd_pos ?s) k"
    using Suc.prems(2) lt by (simp_all add: first_done_def)
  have "n = k - eerd_pos ?s" using Suc.hyps(2) by simp
  then have "eerd_wait (eerd_in s (eerd_pos s)) ?s = Some (?s\<lparr>eerd_pos := Suc k\<rparr>)"
    using nb fd by (rule Suc.hyps(1))
  then show ?case using Suc.prems(1) by (simp add: eerd_wait_step)
qed

lemma mmio_store_fields [simp]:
  "dev (mmio_store a v s) = dev s" "eerd_in (mmio_store a v s) = eerd_in s"
  "eerd_pos (mmio_store a v s) = eerd_pos s"
  "mmio_writes (mmio_store a v s) = mmio_writes s @ [(a, v)]"
  by (simp_all add: mmio_store_def)

lemma eerd_data_fields [simp]:
  "eerd_data (mmio_store a v s) k = eerd_data s k"
  "eerd_data (s\<lparr>eerd_pos := p\<rparr>) k = eerd_data s k"
  "eerd_data (s\<lparr>dev := d\<rparr>) k = eerd_data s k"
  by (simp_all add: eerd_data_def)

lemma read_mac_word_first_done:
  assumes "first_done s (eerd_pos s) k"
  shows "read_mac_word i s =
           Some ((mmio_store (mmio_base (dev s) + ucast EERD)
                    (0x00000001 OR push_bit 8 (word_of_int i)) s)
                 \<lparr>eerd_pos := k + 2,
                  dev := (dev s)\<lparr>mac := (mac (dev s))
                     (nat (i * 2) := ucast (eerd_data s (Suc k)),
                      nat (i * 2) + 1 := ucast (drop_bit 8 (eerd_data s (Suc k))))\<rparr>\<rparr>)"
proof -
  let ?s1 = "mmio_store (mmio_base (dev s) + ucast EERD)
               (0x00000001 OR push_bit 8 (word_of_int i)) s"
  have "first_done ?s1 (eerd_pos ?s1) k" using assms by (simp add: first_done_def)
  then have "eerd_wait 0 ?s1 = Some (?s1\<lparr>eerd_pos := Suc k\<rparr>)"
    by (intro eerd_wait_first_done) simp_all
  then show ?thesis
    by (simp add: read_mac_word_def Let_def eerd_load_def eerd_data_def)
qed

lemma read_mac_Some:
  "read_mac_word 0 s = Some s1 \<Longrightarrow> read_mac_word 1 s1 = Some s2 \<Longrightarrow>
   read_mac_word 2 s2 = Some s3 \<Longrightarrow> read_mac 0 s = Some s3"
  by (simp add: read_mac.simps [of 0] read_mac.simps [of 1] read_mac.simps [of 2]
        read_mac.simps [of 3])

text \<open>
  C9: when the card answers the three requests (load \<open>k0\<close> is the first to show the
  done bit after the first request, \<open>k1\<close> after the second, \<open>k2\<close> after the third),
  the loop of lines 156 to 165 returns; it has stored to the EEPROM-read register, at
  offset \<open>0x14\<close>, the request words \<open>0x001\<close>, \<open>0x101\<close>, \<open>0x201\<close> (start bit 0, word index
  in bits 8 to 15), each time loaded the register until the done bit showed and once more
  for the data, and the station address holds bits 16 to 31 of those three data loads in
  order, word \<open>i\<close> at offsets \<open>2i\<close> and \<open>2i + 1\<close>, low byte first.
\<close>

theorem read_mac_station_address:
  assumes d0: "first_done s (eerd_pos s) k0"
    and d1: "first_done s (k0 + 2) k1"
    and d2: "first_done s (k1 + 2) k2"
  shows "\<exists>s'. read_mac 0 s = Some s'
     \<and> mmio_writes s' =
         mmio_writes s @ [(mmio_base (dev s) + 0x14, 0x00000001),
                          (mmio_base (dev s) + 0x14, 0x00000101),
                          (mmio_base (dev s) + 0x14, 0x00000201)]
     \<and> eerd_pos s' = k2 + 2
     \<and> map (mac (dev s')) [0..<6] =
         [ucast (eerd_data s (k0 + 1)), ucast (drop_bit 8 (eerd_data s (k0 + 1))),
          ucast (eerd_data s (k1 + 1)), ucast (drop_bit 8 (eerd_data s (k1 + 1))),
          ucast (eerd_data s (k2 + 1)), ucast (drop_bit 8 (eerd_data s (k2 + 1)))]"
proof -
  obtain s1 where r0: "read_mac_word 0 s = Some s1"
    and s1: "s1 = (mmio_store (mmio_base (dev s) + ucast EERD) (0x00000001 OR push_bit 8 (word_of_int 0)) s)
                 \<lparr>eerd_pos := k0 + 2,
                  dev := (dev s)\<lparr>mac := (mac (dev s))
                     (nat (0 * 2) := ucast (eerd_data s (Suc k0)),
                      nat (0 * 2) + 1 := ucast (drop_bit 8 (eerd_data s (Suc k0))))\<rparr>\<rparr>"
    using read_mac_word_first_done [OF d0, of 0] by simp
  have f1: "eerd_in s1 = eerd_in s" "eerd_pos s1 = k0 + 2"
    "mmio_base (dev s1) = mmio_base (dev s)"
    by (simp_all add: s1)
  have "first_done s1 (eerd_pos s1) k1" using d1 f1 by (simp add: first_done_def)
  then obtain s2 where r1: "read_mac_word 1 s1 = Some s2"
    and s2: "s2 = (mmio_store (mmio_base (dev s1) + ucast EERD) (0x00000001 OR push_bit 8 (word_of_int 1)) s1)
                 \<lparr>eerd_pos := k1 + 2,
                  dev := (dev s1)\<lparr>mac := (mac (dev s1))
                     (nat (1 * 2) := ucast (eerd_data s1 (Suc k1)),
                      nat (1 * 2) + 1 := ucast (drop_bit 8 (eerd_data s1 (Suc k1))))\<rparr>\<rparr>"
    using read_mac_word_first_done [of s1 k1 1] by simp
  have f2: "eerd_in s2 = eerd_in s" "eerd_pos s2 = k1 + 2"
    "mmio_base (dev s2) = mmio_base (dev s)"
    by (simp_all add: s2 f1)
  have "first_done s2 (eerd_pos s2) k2" using d2 f2 by (simp add: first_done_def)
  then obtain s3 where r2: "read_mac_word 2 s2 = Some s3"
    and s3: "s3 = (mmio_store (mmio_base (dev s2) + ucast EERD) (0x00000001 OR push_bit 8 (word_of_int 2)) s2)
                 \<lparr>eerd_pos := k2 + 2,
                  dev := (dev s2)\<lparr>mac := (mac (dev s2))
                     (nat (2 * 2) := ucast (eerd_data s2 (Suc k2)),
                      nat (2 * 2) + 1 := ucast (drop_bit 8 (eerd_data s2 (Suc k2))))\<rparr>\<rparr>"
    using read_mac_word_first_done [of s2 k2 2] by simp
  have r: "read_mac 0 s = Some s3" using r0 r1 r2 by (rule read_mac_Some)
  have w: "mmio_writes s3 =
         mmio_writes s @ [(mmio_base (dev s) + 0x14, 0x00000001),
                          (mmio_base (dev s) + 0x14, 0x00000101),
                          (mmio_base (dev s) + 0x14, 0x00000201)]"
    by (simp add: s3 s2 s1 EERD_def)
  have p: "eerd_pos s3 = k2 + 2" by (simp add: s3)
  have m: "map (mac (dev s3)) [0..<6] =
         [ucast (eerd_data s (k0 + 1)), ucast (drop_bit 8 (eerd_data s (k0 + 1))),
          ucast (eerd_data s (k1 + 1)), ucast (drop_bit 8 (eerd_data s (k1 + 1))),
          ucast (eerd_data s (k2 + 1)), ucast (drop_bit 8 (eerd_data s (k2 + 1)))]"
  proof -
    have u: "[0..<6] = [0, 1, 2, 3, 4, 5 :: nat]" by (simp add: upt_rec)
    have "mac (dev s3) = (mac (dev s))
            (0 := ucast (eerd_data s (Suc k0)), 1 := ucast (drop_bit 8 (eerd_data s (Suc k0))),
             2 := ucast (eerd_data s (Suc k1)), 3 := ucast (drop_bit 8 (eerd_data s (Suc k1))),
             4 := ucast (eerd_data s (Suc k2)), 5 := ucast (drop_bit 8 (eerd_data s (Suc k2))))"
      by (simp add: s3 s2 s1)
    then show ?thesis unfolding u by simp
  qed
  show ?thesis by (intro exI [of _ s3] conjI r w p m)
qed

lemma eeprom_machine_simps [simp]:
  "eerd_pos eeprom_machine = 0" "mmio_base (dev eeprom_machine) = 0xFEBC0000"
  "mmio_writes eeprom_machine = []"
  by (simp_all add: eeprom_machine_def blank_def)

lemma eeprom_machine_answers:
  "first_done eeprom_machine (eerd_pos eeprom_machine) 1"
  "first_done eeprom_machine (1 + 2) 3"
  "first_done eeprom_machine (3 + 2) 7"
  "eerd_data eeprom_machine (1 + 1) = 0x5452" "eerd_data eeprom_machine (3 + 1) = 0x1200"
  "eerd_data eeprom_machine (7 + 1) = 0x5634"
  by (simp_all add: first_done_def eerd_data_def eeprom_machine_def blank_def upt_rec
        bit_numeral_rec)

theorem read_mac_station_address_witness:
  "first_done eeprom_machine (eerd_pos eeprom_machine) 1
   \<and> first_done eeprom_machine (1 + 2) 3
   \<and> first_done eeprom_machine (3 + 2) 7
   \<and> (case read_mac 0 eeprom_machine of
         None \<Rightarrow> False
       | Some s' \<Rightarrow>
           map (mac (dev s')) [0..<6] = [0x52, 0x54, 0x00, 0x12, 0x34, 0x56]
           \<and> mmio_writes s' = [(0xFEBC0014, 0x001), (0xFEBC0014, 0x101), (0xFEBC0014, 0x201)]
           \<and> eerd_pos s' = 9)"
proof -
  note a = eeprom_machine_answers
  obtain s' where r: "read_mac 0 eeprom_machine = Some s'"
    and w: "mmio_writes s' =
         mmio_writes eeprom_machine @ [(mmio_base (dev eeprom_machine) + 0x14, 0x00000001),
                          (mmio_base (dev eeprom_machine) + 0x14, 0x00000101),
                          (mmio_base (dev eeprom_machine) + 0x14, 0x00000201)]"
    and p: "eerd_pos s' = 7 + 2"
    and m: "map (mac (dev s')) [0..<6] =
         [ucast (eerd_data eeprom_machine (1 + 1)),
          ucast (drop_bit 8 (eerd_data eeprom_machine (1 + 1))),
          ucast (eerd_data eeprom_machine (3 + 1)),
          ucast (drop_bit 8 (eerd_data eeprom_machine (3 + 1))),
          ucast (eerd_data eeprom_machine (7 + 1)),
          ucast (drop_bit 8 (eerd_data eeprom_machine (7 + 1)))]"
    using read_mac_station_address [OF a(1) a(2) a(3)] by (elim exE conjE)
  have m': "map (mac (dev s')) [0..<6] = [0x52, 0x54, 0x00, 0x12, 0x34, 0x56]"
    unfolding m a by simp
  have w': "mmio_writes s' = [(0xFEBC0014, 0x001), (0xFEBC0014, 0x101), (0xFEBC0014, 0x201)]"
    unfolding w by simp
  show ?thesis using a(1) a(2) a(3) r m' w' p by simp
qed

end
